theory Spec2Isabelle
  imports Complex_Main "HOL-Library.Sublist"
begin

section \<open>Car Advisor backend: the embedding of \<open>main.py\<close>\<close>

text \<open>
  The service keeps one read-only list \<open>cars_data\<close>, loaded at start-up, and answers
  requests with five pure helpers: \<open>calculate_emi\<close>, \<open>get_car_by_name\<close>,
  \<open>get_cars_by_budget\<close>, \<open>apply_safety_rules\<close>, \<open>detect_intent\<close>, glued together by
  \<open>process_user_query\<close>. The global \<open>cars_data\<close> is the first argument of every
  function that reads it. A Python exception is a value \<open>Inl e\<close> of the result.
\<close>

subsection \<open>Python floats\<close>

text \<open>
  A Python \<open>float\<close> is an IEEE 754 binary64 value. \<open>Fin x\<close> is the finite float whose
  exact value is the rational \<open>x\<close>; the other three constructors are the infinities and
  NaN. The two zeros \<open>0.0\<close> and \<open>-0.0\<close> are one value \<open>Fin 0\<close>: the source compares,
  divides by and rounds zeros, and none of these tells the two apart. A Python \<open>int\<close>
  (the literals \<open>12\<close>, \<open>100\<close>, \<open>1\<close>, \<open>5\<close>, \<open>1500000\<close>, \<open>2000000\<close> of the source, and
  integer prices read from JSON) is \<open>Fin\<close> of its value: every arithmetic operator of
  the source has a float on one side, so the int is first converted, exactly for these
  literals, and comparisons between an int and a float compare the exact values.
  The operations below round their results to the float grid; they do not ask that
  their arguments lie on it, so a statement about every \<open>Fin x\<close> covers every float.
\<close>

datatype pyfloat = Fin rat | PInf | NInf | NaN

datatype py_error = ZeroDivisionError | OverflowError | ComplexResultError

text \<open>\<open>pow2 k\<close> is \<open>2\<close> to the integer power \<open>k\<close>.\<close>

definition pow2 :: "int \<Rightarrow> rat" where
  "pow2 k = (if 0 \<le> k then 2 ^ nat k else 1 / 2 ^ nat (- k))"

text \<open>The number of binary digits of a positive integer; \<open>0\<close> for the others.\<close>

function bit_length :: "int \<Rightarrow> int" where
  "bit_length n = (if n \<le> 0 then 0 else 1 + bit_length (n div 2))"
  by pat_completeness auto
termination
  by (relation "measure nat") auto

declare bit_length.simps [simp del]

text \<open>\<open>ilog2 x\<close> is the binary exponent of a positive rational: \<open>2^e \<le> x < 2^(e+1)\<close>.\<close>

definition ilog2 :: "rat \<Rightarrow> int" where
  "ilog2 x = (if 1 \<le> x then bit_length \<lfloor>x\<rfloor> - 1
              else - bit_length (\<lceil>1 / x\<rceil> - 1))"

text \<open>Rounding to the nearest integer, ties to the even one.\<close>

definition round_half_even :: "rat \<Rightarrow> int" where
  "round_half_even x =
     (let f = \<lfloor>x\<rfloor>; d = x - of_int f
      in if d < 1 / 2 then f
         else if 1 / 2 < d then f + 1
         else if even f then f else f + 1)"

text \<open>
  Rounding a rational to the binary64 grid: 53 significant bits, the exponent of the
  smallest normal number \<open>2^-1022\<close> for everything below it (the subnormals), nearest
  value with ties to even. The exponent is not bounded above here; \<open>to_float\<close> turns a
  rounded value of magnitude \<open>2^1024\<close> or more into an infinity.
\<close>

definition fl_round :: "rat \<Rightarrow> rat" where
  "fl_round x =
     (if x = 0 then 0
      else let e = max (ilog2 \<bar>x\<bar>) (- 1022); q = pow2 (e - 52)
           in of_int (round_half_even (x / q)) * q)"

text \<open>The spacing of the grid around \<open>x\<close>: \<open>fl_round x\<close> is a multiple of \<open>quantum x\<close>.\<close>

definition quantum :: "rat \<Rightarrow> rat" where
  "quantum x = pow2 (max (ilog2 \<bar>x\<bar>) (- 1022) - 52)"

definition to_float :: "rat \<Rightarrow> pyfloat" where
  "to_float x =
     (let y = fl_round x
      in if pow2 1024 \<le> y then PInf else if y \<le> - pow2 1024 then NInf else Fin y)"

text \<open>A float literal of the source text, such as \<open>0.3\<close>: the nearest float.\<close>

definition float_lit :: "rat \<Rightarrow> pyfloat" where
  "float_lit x = to_float x"

fun py_neg :: "pyfloat \<Rightarrow> pyfloat" where
  "py_neg (Fin x) = Fin (- x)"
| "py_neg PInf = NInf"
| "py_neg NInf = PInf"
| "py_neg NaN = NaN"

fun py_abs :: "pyfloat \<Rightarrow> pyfloat" where
  "py_abs (Fin x) = Fin \<bar>x\<bar>"
| "py_abs PInf = PInf"
| "py_abs NInf = PInf"
| "py_abs NaN = NaN"

text \<open>\<open>a + b\<close>: never raises; an overflow gives an infinity.\<close>

fun py_add :: "pyfloat \<Rightarrow> pyfloat \<Rightarrow> pyfloat" where
  "py_add NaN _ = NaN"
| "py_add _ NaN = NaN"
| "py_add PInf NInf = NaN"
| "py_add NInf PInf = NaN"
| "py_add PInf _ = PInf"
| "py_add _ PInf = PInf"
| "py_add NInf _ = NInf"
| "py_add _ NInf = NInf"
| "py_add (Fin x) (Fin y) = to_float (x + y)"

definition py_sub :: "pyfloat \<Rightarrow> pyfloat \<Rightarrow> pyfloat" where
  "py_sub a b = py_add a (py_neg b)"

text \<open>The sign of a float as \<open>-1\<close>, \<open>0\<close> or \<open>1\<close>; NaN has none and is handled before.\<close>

fun py_sgn :: "pyfloat \<Rightarrow> int" where
  "py_sgn (Fin x) = (if x < 0 then - 1 else if x = 0 then 0 else 1)"
| "py_sgn PInf = 1"
| "py_sgn NInf = - 1"
| "py_sgn NaN = 0"

definition inf_of_sign :: "int \<Rightarrow> pyfloat" where
  "inf_of_sign s = (if s < 0 then NInf else PInf)"

text \<open>\<open>a * b\<close>: never raises; infinity times zero is NaN.\<close>

fun py_mul :: "pyfloat \<Rightarrow> pyfloat \<Rightarrow> pyfloat" where
  "py_mul NaN _ = NaN"
| "py_mul _ NaN = NaN"
| "py_mul (Fin x) (Fin y) = to_float (x * y)"
| "py_mul a b =
     (if py_sgn a * py_sgn b = 0 then NaN else inf_of_sign (py_sgn a * py_sgn b))"

text \<open>
  \<open>a / b\<close> (\<open>float_div\<close> of CPython): a zero divisor raises \<open>ZeroDivisionError\<close>
  whatever the dividend is, NaN and infinities included.
\<close>

fun py_div :: "pyfloat \<Rightarrow> pyfloat \<Rightarrow> py_error + pyfloat" where
  "py_div a (Fin y) =
     (if y = 0 then Inl ZeroDivisionError
      else case a of
             Fin x \<Rightarrow> Inr (to_float (x / y))
           | NaN \<Rightarrow> Inr NaN
           | _ \<Rightarrow> Inr (inf_of_sign (py_sgn a * py_sgn (Fin y))))"
| "py_div a NaN = Inr NaN"
| "py_div NaN b = Inr NaN"
| "py_div (Fin x) b = Inr (Fin 0)"
| "py_div a b = Inr NaN"

text \<open>The comparisons \<open>a <= b\<close>, \<open>a < b\<close> and \<open>a == b\<close>: false whenever a NaN is involved.\<close>

fun py_le :: "pyfloat \<Rightarrow> pyfloat \<Rightarrow> bool" where
  "py_le NaN _ = False"
| "py_le _ NaN = False"
| "py_le NInf _ = True"
| "py_le _ PInf = True"
| "py_le (Fin x) (Fin y) = (x \<le> y)"
| "py_le _ _ = False"

definition py_lt :: "pyfloat \<Rightarrow> pyfloat \<Rightarrow> bool" where
  "py_lt a b = (py_le a b \<and> a \<noteq> b)"

definition py_eq :: "pyfloat \<Rightarrow> pyfloat \<Rightarrow> bool" where
  "py_eq a b = (a \<noteq> NaN \<and> a = b)"

text \<open>Truth value of a float, as \<open>x or y\<close> tests it: false exactly for zero.\<close>

definition py_truthy :: "pyfloat \<Rightarrow> bool" where
  "py_truthy a = (a \<noteq> Fin 0)"

text \<open>
  \<open>round(x, 2)\<close>: the exact value of \<open>x\<close> is rounded to two decimals, ties to even, and
  the nearest float to that decimal is returned; NaN and the infinities round to
  themselves.
\<close>

fun py_round2 :: "pyfloat \<Rightarrow> pyfloat" where
  "py_round2 (Fin x) = to_float (of_int (round_half_even (x * 100)) / 100)"
| "py_round2 a = a"

text \<open>
  The C library's \<open>pow\<close> is not part of the repository and its last bit depends on the
  platform, so it is a parameter: \<open>libm v w\<close> is the outcome of the call \<open>pow(v, w)\<close>
  followed by CPython's \<open>errno\<close> check, for finite \<open>v > 0\<close>, \<open>v \<noteq> 1\<close> and finite
  \<open>w \<noteq> 0\<close>; \<open>Inl OverflowError\<close> when the check raises.
\<close>

type_synonym libm_pow = "rat \<Rightarrow> rat \<Rightarrow> py_error + pyfloat"

definition is_integer :: "rat \<Rightarrow> bool" where
  "is_integer y = (of_int \<lfloor>y\<rfloor> = y)"

definition is_odd_integer :: "rat \<Rightarrow> bool" where
  "is_odd_integer y = (is_integer y \<and> odd \<lfloor>y\<rfloor>)"

text \<open>
  \<open>v ** w\<close> (\<open>float_pow\<close> of CPython), case by case in the order of its C source:
  a zero exponent gives \<open>1.0\<close> for every base; NaN; an infinite exponent; an infinite
  base; a zero base; a negative base with a fractional exponent leaves the floats (the
  power is a \<open>complex\<close>, or its computation raises \<open>OverflowError\<close>; on a \<open>complex\<close>
  the \<open>round\<close> of \<open>calculate_emi\<close> raises \<open>TypeError\<close>: the one error value
  \<open>ComplexResultError\<close> stands for all of these runs, none of which returns a result,
  and marks the power as the place where the floats are left, not the Python exception);
  a base of magnitude one gives \<open>\<plusminus>1.0\<close> without calling the library; everything else
  calls the library. With a rate that is not negative the base is at least one, and
  the negative bases are never reached.
\<close>

definition py_pow :: "libm_pow \<Rightarrow> pyfloat \<Rightarrow> pyfloat \<Rightarrow> py_error + pyfloat" where
  "py_pow libm v w =
     (if w = Fin 0 then Inr (Fin 1)
      else if v = NaN then Inr NaN
      else if w = NaN then Inr (if v = Fin 1 then Fin 1 else NaN)
      else if w = PInf \<or> w = NInf then
        (if py_abs v = Fin 1 then Inr (Fin 1)
         else if (w = PInf) = py_lt (Fin 1) (py_abs v) then Inr PInf
         else Inr (Fin 0))
      else case w of
        Fin y \<Rightarrow>
          (case v of
             Fin x \<Rightarrow>
               if x = 0 then (if y < 0 then Inl ZeroDivisionError else Inr (Fin 0))
               else if x < 0 \<and> \<not> is_integer y then Inl ComplexResultError
               else if \<bar>x\<bar> = 1 then Inr (Fin (if x < 0 \<and> is_odd_integer y then - 1 else 1))
               else (case libm \<bar>x\<bar> y of
                       Inl e \<Rightarrow> Inl e
                     | Inr r \<Rightarrow> Inr (if x < 0 \<and> is_odd_integer y then py_neg r else r))
           | _ \<Rightarrow>
               if 0 < y then Inr (if is_odd_integer y then v else PInf)
               else Inr (Fin 0))
      | _ \<Rightarrow> Inr NaN)"

text \<open>
  The only library call the main endpoint makes is \<open>pow(1.0079166666666666, 60.0)\<close>:
  the base is \<open>1 + 9.5 / 12 / 100\<close> in float arithmetic and the exponent \<open>5 * 12\<close>.
  The exact power is \<open>1.605...\<close>; \<open>libm_pow_ok\<close> asks of a library only that it
  returns, at this one point, a finite float between \<open>1.5\<close> and \<open>2\<close>.
\<close>

definition emi_base :: rat where
  "emi_base = 141851660138141 / 140737488355328"

definition libm_pow_ok :: "libm_pow \<Rightarrow> bool" where
  "libm_pow_ok libm =
     (case libm emi_base 60 of
        Inr (Fin p) \<Rightarrow> 3 / 2 \<le> p \<and> p \<le> 2
      | _ \<Rightarrow> False)"

text \<open>
  A sample library for the concrete evaluations below. It is tabulated at that point
  with the float \<open>1.6050094692991108\<close> that CPython on glibc returns there; it reports
  the overflow of a power with a positive integer exponent whose exact value is
  \<open>2^1024\<close> or more, where every C library returns \<open>HUGE_VAL\<close> with \<open>ERANGE\<close> and
  CPython raises; elsewhere it returns NaN.
\<close>

definition libm_sample :: libm_pow where
  "libm_sample x y =
     (if x = emi_base \<and> y = 60 then Inr (Fin (7228320047861593 / 4503599627370496))
      else if is_integer y \<and> 0 < y \<and> pow2 1024 \<le> x ^ nat \<lfloor>y\<rfloor> then Inl OverflowError
      else Inr NaN)"

subsection \<open>Strings\<close>

text \<open>
  A \<open>str\<close> is a \<open>string\<close>. \<open>lower\<close> is \<open>str.lower\<close> on ASCII text: the 26 capital
  letters go to their small letters and every other character stays (so do, in this
  model, the characters beyond ASCII, whose case Python would fold as well; the keywords
  and names of the claims are ASCII). \<open>py_in w s\<close> is the substring test \<open>w in s\<close>.
\<close>

definition lower_char :: "char \<Rightarrow> char" where
  "lower_char c =
     (case map_of (zip ''ABCDEFGHIJKLMNOPQRSTUVWXYZ'' ''abcdefghijklmnopqrstuvwxyz'') c of
        Some l \<Rightarrow> l
      | None \<Rightarrow> c)"

definition lower :: "string \<Rightarrow> string" where
  "lower s = map lower_char s"

definition py_in :: "string \<Rightarrow> string \<Rightarrow> bool" where
  "py_in w s = sublist w s"

subsection \<open>Data model\<close>

text \<open>
  A catalog record (\<open>CarSpecs\<close> of \<open>models.py\<close>); \<open>cars_data\<close> is a list of them.
  The loader does not validate the JSON: a record without a string \<open>name\<close> or a
  numeric \<open>price\<close> makes the tools raise, and is outside this type.
\<close>

record car =
  name :: string
  price :: pyfloat
  fuel_type :: string
  seating_capacity :: int
  safety_rating :: string
  model_year :: int

text \<open>\<open>UserQuery\<close>: the two optional fields default to \<open>None\<close>.\<close>

record user_query_t =
  query :: string
  user_income :: "pyfloat option"
  max_budget :: "pyfloat option"

text \<open>The dictionary returned by \<open>calculate_emi\<close>.\<close>

record emi_result =
  emi_amount :: pyfloat
  total_payment :: pyfloat
  total_interest :: pyfloat

text \<open>
  The messages are f-strings with emoji and formatted amounts; a message is kept as
  its template together with the values the template prints.
\<close>

datatype message_t =
    MsgIncomeNotProvided
  | MsgSafeEMI pyfloat pyfloat
  | MsgRiskyEMI pyfloat pyfloat
  | MsgBudgetSearchCompleted
  | MsgComparisonReady
  | MsgCarFound
  | MsgGeneralInfo

record verdict =
  approved :: bool
  message :: message_t

text \<open>\<open>tool_result\<close> has a different shape in each branch of \<open>process_user_query\<close>.\<close>

datatype tool_output_t =
    EmiOut emi_result
  | CarsOut "car list"
  | MessageOut string
  | CarOut "car option"
  | CountOut nat

record response =
  intent :: string
  user_query :: string
  tool_output :: tool_output_t
  safety_check :: verdict
  recommended_action :: string

subsection \<open>The EMI calculator\<close>

text \<open>
  \<open>calculate_emi\<close>, operator by operator in Python's evaluation order:
  \<open>principal * monthly_rate * (1 + monthly_rate)**tenure_months
     / ((1 + monthly_rate)**tenure_months - 1)\<close>
  is \<open>((principal * monthly_rate) * p) / (p' - 1)\<close> with the two powers evaluated
  separately, the numerator first.
\<close>

definition emi_formula ::
  "libm_pow \<Rightarrow> pyfloat \<Rightarrow> pyfloat \<Rightarrow> pyfloat \<Rightarrow> py_error + pyfloat" where
  "emi_formula libm princ monthly_rate tenure_months =
     (case py_pow libm (py_add (Fin 1) monthly_rate) tenure_months of
        Inl e \<Rightarrow> Inl e
      | Inr p \<Rightarrow>
          (case py_pow libm (py_add (Fin 1) monthly_rate) tenure_months of
             Inl e \<Rightarrow> Inl e
           | Inr p' \<Rightarrow>
               py_div (py_mul (py_mul princ monthly_rate) p) (py_sub p' (Fin 1))))"

definition calculate_emi ::
  "libm_pow \<Rightarrow> pyfloat \<Rightarrow> pyfloat \<Rightarrow> pyfloat \<Rightarrow> py_error + emi_result" where
  "calculate_emi libm princ annual_rate tenure_years =
     (case py_div annual_rate (Fin 12) of
        Inl e \<Rightarrow> Inl e
      | Inr m \<Rightarrow>
     (case py_div m (Fin 100) of
        Inl e \<Rightarrow> Inl e
      | Inr monthly_rate \<Rightarrow>
     (let tenure_months = py_mul tenure_years (Fin 12)
      in case (if py_eq monthly_rate (Fin 0)
               then py_div princ tenure_months
               else emi_formula libm princ monthly_rate tenure_months) of
           Inl e \<Rightarrow> Inl e
         | Inr emi \<Rightarrow>
             (let total = py_mul emi tenure_months
              in Inr \<lparr>emi_amount = py_round2 emi,
                      total_payment = py_round2 total,
                      total_interest = py_round2 (py_sub total princ)\<rparr>))))"

subsection \<open>The catalog tools\<close>

fun get_car_by_name :: "car list \<Rightarrow> string \<Rightarrow> car option" where
  "get_car_by_name [] nm = None"
| "get_car_by_name (c # cs) nm =
     (if py_in (lower nm) (lower (name c)) then Some c else get_car_by_name cs nm)"

fun get_cars_by_budget :: "car list \<Rightarrow> pyfloat \<Rightarrow> car list" where
  "get_cars_by_budget [] max_price = []"
| "get_cars_by_budget (c # cs) max_price =
     (if py_le (price c) max_price then c # get_cars_by_budget cs max_price
      else get_cars_by_budget cs max_price)"

subsection \<open>The rule engine\<close>

definition apply_safety_rules :: "pyfloat \<Rightarrow> pyfloat option \<Rightarrow> py_error + verdict" where
  "apply_safety_rules emi user_inc =
     (case user_inc of
        None \<Rightarrow> Inr \<lparr>approved = True, message = MsgIncomeNotProvided\<rparr>
      | Some inc \<Rightarrow>
          (case py_div inc (Fin 12) of
             Inl e \<Rightarrow> Inl e
           | Inr monthly \<Rightarrow>
               (let max_emi = py_mul monthly (float_lit (3 / 10))
                in if py_le emi max_emi
                   then Inr \<lparr>approved = True, message = MsgSafeEMI emi max_emi\<rparr>
                   else Inr \<lparr>approved = False, message = MsgRiskyEMI emi max_emi\<rparr>)))"

subsection \<open>Intent detection and the main endpoint\<close>

text \<open>\<open>any(word in query_lower for word in words)\<close>.\<close>

definition any_word_in :: "string list \<Rightarrow> string \<Rightarrow> bool" where
  "any_word_in ws s = list_ex (\<lambda>w. py_in w s) ws"

definition detect_intent :: "string \<Rightarrow> string" where
  "detect_intent q =
     (let query_lower = lower q
      in if any_word_in [''emi'', ''loan'', ''finance'', ''monthly'', ''emi''] query_lower
         then ''emi_calculation''
         else if any_word_in [''budget'', ''lakhs'', ''crore'', ''price under''] query_lower
         then ''budget_search''
         else if any_word_in [''compare'', ''vs'', ''versus''] query_lower
         then ''car_comparison''
         else if any_word_in [''find'', ''show'', ''which''] query_lower
         then ''car_search''
         else ''general_info'')"

text \<open>\<open>x or d\<close> for an optional float: \<open>d\<close> when \<open>x\<close> is \<open>None\<close> or zero.\<close>

definition or_default :: "pyfloat option \<Rightarrow> pyfloat \<Rightarrow> pyfloat" where
  "or_default x d = (case x of None \<Rightarrow> d | Some b \<Rightarrow> if py_truthy b then b else d)"

text \<open>\<open>intent.replace('_', ' ')\<close>.\<close>

definition replace_underscores :: "string \<Rightarrow> string" where
  "replace_underscores s = map (\<lambda>c. if c = CHR ''_'' then CHR '' '' else c) s"

text \<open>The dictionary of the final \<open>return\<close> of \<open>process_user_query\<close>.\<close>

definition make_response ::
  "string \<Rightarrow> user_query_t \<Rightarrow> tool_output_t \<Rightarrow> verdict \<Rightarrow> response" where
  "make_response i qd t s =
     \<lparr>intent = i, user_query = query qd, tool_output = t, safety_check = s,
      recommended_action = ''Processed '' @ replace_underscores i @ '' successfully''\<rparr>"

definition process_user_query ::
  "libm_pow \<Rightarrow> car list \<Rightarrow> user_query_t \<Rightarrow> py_error + response" where
  "process_user_query libm cars_data qd =
     (let i = detect_intent (query qd)
      in if i = ''emi_calculation'' then
           (let princ = or_default (max_budget qd) (Fin 1500000)
            in case calculate_emi libm princ (float_lit (19 / 2)) (Fin 5) of
                 Inl e \<Rightarrow> Inl e
               | Inr tool_result \<Rightarrow>
                   (case apply_safety_rules (emi_amount tool_result) (user_income qd) of
                      Inl e \<Rightarrow> Inl e
                    | Inr safety_result \<Rightarrow>
                        Inr (make_response i qd (EmiOut tool_result) safety_result)))
         else if i = ''budget_search'' then
           Inr (make_response i qd
                  (CarsOut (get_cars_by_budget cars_data (or_default (max_budget qd) (Fin 2000000))))
                  \<lparr>approved = True, message = MsgBudgetSearchCompleted\<rparr>)
         else if i = ''car_comparison'' then
           Inr (make_response i qd (MessageOut ''Comparison feature coming in Day 4'')
                  \<lparr>approved = True, message = MsgComparisonReady\<rparr>)
         else if i = ''car_search'' then
           Inr (make_response i qd (CarOut (get_car_by_name cars_data (query qd)))
                  \<lparr>approved = True, message = MsgCarFound\<rparr>)
         else
           Inr (make_response i qd (CountOut (length cars_data))
                  \<lparr>approved = True, message = MsgGeneralInfo\<rparr>))"

subsection \<open>Constants of the main endpoint\<close>

text \<open>The monthly rate \<open>9.5 / 12 / 100\<close> of the main endpoint, in float arithmetic.\<close>

definition monthly_rate_95 :: rat where
  "monthly_rate_95 = 2281823811201051 / 288230376151711744"

text \<open>
  The principal of the emi_calculation branch as the specification words it:
  \<open>max_budget\<close> if provided, else 1,500,000.
\<close>

definition claimed_emi_principal :: "user_query_t \<Rightarrow> pyfloat" where
  "claimed_emi_principal qd = (case max_budget qd of Some b \<Rightarrow> b | None \<Rightarrow> Fin 1500000)"

subsection \<open>Sample data\<close>

text \<open>
  \<open>data/cars.json\<close> is not part of the sources; the evaluations below run on this
  catalog, whose second record is the one the specification's examples mention.
\<close>

definition hyundai_creta :: car where
  "hyundai_creta =
     \<lparr>name = ''Hyundai Creta'', price = Fin 1100000, fuel_type = ''Diesel'',
      seating_capacity = 5, safety_rating = ''5 Star'', model_year = 2023\<rparr>"

definition maruti_alto :: car where
  "maruti_alto =
     \<lparr>name = ''Maruti Alto'', price = Fin 450000, fuel_type = ''Petrol'',
      seating_capacity = 5, safety_rating = ''3 Star'', model_year = 2022\<rparr>"

definition maruti_alto_k10 :: car where
  "maruti_alto_k10 =
     \<lparr>name = ''Maruti Alto K10'', price = Fin 500000, fuel_type = ''Petrol'',
      seating_capacity = 5, safety_rating = ''2 Star'', model_year = 2023\<rparr>"

definition sample_catalog :: "car list" where
  "sample_catalog = [hyundai_creta, maruti_alto, maruti_alto_k10]"

section \<open>Properties\<close>

subsection \<open>Evaluation rules for strings\<close>

lemma py_in_eval:
  "py_in [] s = True"
  "py_in (x # xs) [] = False"
  "py_in (x # xs) (y # ys) = (prefix (x # xs) (y # ys) \<or> py_in (x # xs) ys)"
  by (simp_all add: py_in_def sublist_code)

lemma any_word_in_iff: "any_word_in ws s \<longleftrightarrow> (\<exists>w\<in>set ws. py_in w s)"
  by (simp add: any_word_in_def list_ex_iff)

lemmas sample_defs =
  sample_catalog_def hyundai_creta_def maruti_alto_def maruti_alto_k10_def

subsection \<open>Intent detection\<close>

text \<open>
  Claim C2. For every query string, \<open>detect_intent\<close> tests the keyword sets in the
  fixed order emi_calculation, budget_search, car_comparison, car_search, and falls
  back to general_info; the first set with a keyword occurring in the lower-cased
  query decides. In particular a query whose lower-cased text contains both
  \<open>emi\<close> and \<open>compare\<close> is classified as emi_calculation.
\<close>

theorem detect_intent_priority:
  "detect_intent q =
     (if \<exists>w\<in>{''emi'', ''loan'', ''finance'', ''monthly''}. py_in w (lower q)
      then ''emi_calculation''
      else if \<exists>w\<in>{''budget'', ''lakhs'', ''crore'', ''price under''}. py_in w (lower q)
      then ''budget_search''
      else if \<exists>w\<in>{''compare'', ''vs'', ''versus''}. py_in w (lower q)
      then ''car_comparison''
      else if \<exists>w\<in>{''find'', ''show'', ''which''}. py_in w (lower q)
      then ''car_search''
      else ''general_info'')
   \<and> (py_in ''emi'' (lower q) \<and> py_in ''compare'' (lower q)
        \<longrightarrow> detect_intent q = ''emi_calculation'')"
  unfolding detect_intent_def Let_def any_word_in_iff by simp

theorem detect_intent_priority_witness:
  "py_in ''emi'' (lower ''Compare EMI of two cars'')
   \<and> py_in ''compare'' (lower ''Compare EMI of two cars'')
   \<and> detect_intent ''Compare EMI of two cars'' = ''emi_calculation''"
proof -
  have l: "lower ''Compare EMI of two cars'' = ''compare emi of two cars''"
    by (simp add: lower_def lower_char_def)
  have h1: "py_in ''emi'' (lower ''Compare EMI of two cars'')"
    unfolding l by (simp add: py_in_eval)
  have h2: "py_in ''compare'' (lower ''Compare EMI of two cars'')"
    unfolding l by (simp add: py_in_eval)
  from detect_intent_priority [of "''Compare EMI of two cars''"] h1 h2
  show ?thesis by blast
qed

subsection \<open>The catalog tools\<close>

lemma get_cars_by_budget_filter:
  "get_cars_by_budget cars m = filter (\<lambda>c. py_le (price c) m) cars"
  by (induction cars) simp_all

text \<open>
  Claim C5. For every threshold and every catalog, \<open>get_cars_by_budget\<close> returns
  exactly the records whose price is at most the threshold (in Python's \<open><=\<close>), as a
  subsequence of the catalog in catalog order, and filtering its own output again
  with the same threshold changes nothing.
\<close>

theorem budget_filter_exact:
  "get_cars_by_budget cars m = filter (\<lambda>c. py_le (price c) m) cars
   \<and> subseq (get_cars_by_budget cars m) cars
   \<and> (\<forall>c. c \<in> set (get_cars_by_budget cars m) \<longleftrightarrow> c \<in> set cars \<and> py_le (price c) m)
   \<and> get_cars_by_budget (get_cars_by_budget cars m) m = get_cars_by_budget cars m"
  by (simp add: get_cars_by_budget_filter)

theorem budget_filter_exact_witness:
  "get_cars_by_budget sample_catalog (Fin 500000) = [maruti_alto, maruti_alto_k10]
   \<and> subseq [maruti_alto, maruti_alto_k10] sample_catalog
   \<and> get_cars_by_budget [maruti_alto, maruti_alto_k10] (Fin 500000)
       = [maruti_alto, maruti_alto_k10]"
proof -
  have e: "get_cars_by_budget sample_catalog (Fin 500000) = [maruti_alto, maruti_alto_k10]"
    by (simp add: sample_defs)
  from budget_filter_exact [of sample_catalog "Fin 500000"] show ?thesis
    unfolding e by blast
qed

lemma get_car_by_name_None:
  "get_car_by_name cars q = None \<longleftrightarrow> (\<forall>c\<in>set cars. \<not> py_in (lower q) (lower (name c)))"
  by (induction cars) simp_all

lemma get_car_by_name_Some:
  "get_car_by_name cars q = Some c \<Longrightarrow>
     \<exists>before after. cars = before @ c # after \<and> py_in (lower q) (lower (name c))
        \<and> (\<forall>d\<in>set before. \<not> py_in (lower q) (lower (name d)))"
proof (induction cars)
  case Nil
  then show ?case by simp
next
  case (Cons a cars)
  show ?case
  proof (cases "py_in (lower q) (lower (name a))")
    case True
    with Cons.prems have "a = c" by simp
    with True have "a # cars = [] @ c # cars \<and> py_in (lower q) (lower (name c))
        \<and> (\<forall>d\<in>set []. \<not> py_in (lower q) (lower (name d)))" by simp
    then show ?thesis by blast
  next
    case False
    with Cons.prems have "get_car_by_name cars q = Some c" by simp
    from Cons.IH [OF this] obtain before after where
      "cars = before @ c # after" "py_in (lower q) (lower (name c))"
      "\<forall>d\<in>set before. \<not> py_in (lower q) (lower (name d))" by blast
    with False have "a # cars = (a # before) @ c # after \<and> py_in (lower q) (lower (name c))
        \<and> (\<forall>d\<in>set (a # before). \<not> py_in (lower q) (lower (name d)))" by simp
    then show ?thesis by blast
  qed
qed

text \<open>
  Claim C6. For every query string and every catalog, \<open>get_car_by_name\<close> returns the
  first record, in catalog order, whose lower-cased name contains the lower-cased
  query as a substring: the result is \<open>None\<close> exactly when no record matches, and a
  returned record matches and has no matching record before it. Looking up \<open>ALTO\<close>
  and \<open>alto\<close> gives the same result on every catalog.
\<close>

theorem get_car_by_name_first_match:
  "(get_car_by_name cars q = None
       \<longleftrightarrow> (\<forall>c\<in>set cars. \<not> sublist (lower q) (lower (name c))))
   \<and> (\<forall>c. get_car_by_name cars q = Some c \<longrightarrow>
         (\<exists>before after. cars = before @ c # after
            \<and> sublist (lower q) (lower (name c))
            \<and> (\<forall>d\<in>set before. \<not> sublist (lower q) (lower (name d)))))
   \<and> get_car_by_name cars ''ALTO'' = get_car_by_name cars ''alto''"
proof -
  have "lower ''ALTO'' = lower ''alto''" by (simp add: lower_def lower_char_def)
  then have "get_car_by_name cars ''ALTO'' = get_car_by_name cars ''alto''"
    by (induction cars) simp_all
  with get_car_by_name_None [of cars q] get_car_by_name_Some [of cars q]
  show ?thesis unfolding py_in_def by blast
qed

theorem get_car_by_name_first_match_witness:
  "get_car_by_name sample_catalog ''ALTO'' = Some maruti_alto
   \<and> (\<exists>before after. sample_catalog = before @ maruti_alto # after
         \<and> sublist (lower ''ALTO'') (lower (name maruti_alto))
         \<and> (\<forall>d\<in>set before. \<not> sublist (lower ''ALTO'') (lower (name d))))
   \<and> get_car_by_name sample_catalog ''alto'' = Some maruti_alto"
proof -
  have e: "get_car_by_name sample_catalog ''ALTO'' = Some maruti_alto"
    by (simp add: sample_defs lower_def lower_char_def py_in_eval)
  from get_car_by_name_first_match [of sample_catalog "''ALTO''"] e
  show ?thesis by metis
qed

text \<open>
  Claim C10. With the empty string as the query, \<open>get_car_by_name\<close> returns the
  first record of every non-empty catalog, and \<open>None\<close> only for the empty catalog.
\<close>

theorem get_car_by_name_empty_query:
  "get_car_by_name cars [] = (case cars of [] \<Rightarrow> None | c # _ \<Rightarrow> Some c)
   \<and> (get_car_by_name cars [] = None \<longleftrightarrow> cars = [])"
  by (cases cars) (simp_all add: lower_def py_in_def)

theorem get_car_by_name_empty_query_witness:
  "get_car_by_name sample_catalog [] = Some hyundai_creta \<and> sample_catalog \<noteq> []"
  using get_car_by_name_empty_query [of sample_catalog]
  by (simp add: sample_catalog_def)

subsection \<open>Powers of two and the binary exponent\<close>

lemma pow2_powi: "pow2 k = 2 powi k"
  by (simp add: pow2_def power_int_def inverse_eq_divide power_one_over)

lemma pow2_pos: "0 < pow2 k"
  by (simp add: pow2_powi)

lemma pow2_add: "pow2 (a + b) = pow2 a * pow2 b"
  by (simp add: pow2_powi power_int_add)

lemma pow2_mono: "a \<le> b \<Longrightarrow> pow2 a \<le> pow2 b"
  by (simp add: pow2_powi power_int_increasing)

lemma pow2_strict_mono: "a < b \<Longrightarrow> pow2 a < pow2 b"
  by (simp add: pow2_powi power_int_strict_increasing)

lemma pow2_less_iff: "pow2 a < pow2 b \<longleftrightarrow> a < b"
  using pow2_strict_mono [of a b] pow2_mono [of b a] by (auto simp: not_le [symmetric])

lemma pow2_le_iff: "pow2 a \<le> pow2 b \<longleftrightarrow> a \<le> b"
  using pow2_strict_mono [of b a] pow2_mono [of a b] by (auto simp: not_less [symmetric])

lemma pow2_neg: "pow2 (- k) = 1 / pow2 k"
  by (simp add: pow2_powi power_int_minus_divide)

lemma pow2_nat: "pow2 (int n) = 2 ^ n"
  by (simp add: pow2_def)

lemma bit_length_nonneg: "0 \<le> bit_length n"
proof (induction n rule: bit_length.induct)
  case (1 n)
  show ?case
  proof (cases "n \<le> 0")
    case True
    then show ?thesis by (subst bit_length.simps) simp
  next
    case False
    with 1 show ?thesis by (subst bit_length.simps) simp
  qed
qed

lemma bit_length_pos: "0 < n \<Longrightarrow> 1 \<le> bit_length n"
  using bit_length_nonneg [of "n div 2"] by (subst bit_length.simps) simp

lemma bit_length_bounds:
  "0 < n \<Longrightarrow> 2 ^ nat (bit_length n - 1) \<le> n \<and> n < 2 ^ nat (bit_length n)"
proof (induction n rule: bit_length.induct)
  case (1 n)
  show ?case
  proof (cases "n = 1")
    case True
    have "bit_length 1 = 1" by (simp add: bit_length.simps)
    with True show ?thesis by simp
  next
    case False
    with "1.prems" have h: "0 < n div 2" by simp
    from "1.prems" have n: "\<not> n \<le> 0" by simp
    from "1.IH" [OF n h] have
      lo: "2 ^ nat (bit_length (n div 2) - 1) \<le> n div 2" and
      hi: "n div 2 < 2 ^ nat (bit_length (n div 2))" by blast+
    have b: "bit_length n = 1 + bit_length (n div 2)"
      using n by (subst bit_length.simps) simp
    have p: "1 \<le> bit_length (n div 2)" using h by (rule bit_length_pos)
    have e1: "nat (bit_length n - 1) = Suc (nat (bit_length (n div 2) - 1))"
      using b p by simp
    have e2: "nat (bit_length n) = Suc (nat (bit_length (n div 2)))"
      using b p by simp
    have "2 * 2 ^ nat (bit_length (n div 2) - 1) \<le> 2 * (n div 2)" using lo by simp
    also have "\<dots> \<le> n" by simp
    finally have l: "2 ^ nat (bit_length n - 1) \<le> n" unfolding e1 by simp
    have "n div 2 + 1 \<le> 2 ^ nat (bit_length (n div 2))" using hi by simp
    then have "2 * (n div 2) + 2 \<le> 2 * 2 ^ nat (bit_length (n div 2))" by simp
    moreover have "n < 2 * (n div 2) + 2" by presburger
    ultimately have "n < 2 ^ nat (bit_length n)" unfolding e2 by simp
    with l show ?thesis by simp
  qed
qed

lemma bit_length_le: "0 \<le> k \<Longrightarrow> n < 2 ^ nat k \<Longrightarrow> bit_length n \<le> k"
proof (cases "0 < n")
  case True
  assume k: "0 \<le> k" and lt: "n < 2 ^ nat k"
  from bit_length_bounds [OF True] lt
  have "(2::int) ^ nat (bit_length n - 1) < 2 ^ nat k" by linarith
  then have "nat (bit_length n - 1) < nat k" by simp
  with k show ?thesis by simp
next
  case False
  assume "0 \<le> k"
  moreover from False have "bit_length n = 0" by (subst bit_length.simps) simp
  ultimately show ?thesis by simp
qed

lemma ilog2_bounds:
  assumes "0 < x"
  shows "pow2 (ilog2 x) \<le> x \<and> x < pow2 (ilog2 x + 1)"
proof (cases "1 \<le> x")
  case True
  let ?n = "\<lfloor>x\<rfloor>"
  from True have n: "0 < ?n" by simp
  have il: "ilog2 x = bit_length ?n - 1" using True by (simp add: ilog2_def)
  from bit_length_pos [OF n] have nn: "0 \<le> bit_length ?n - 1" by simp
  from bit_length_bounds [OF n] have
    lo: "2 ^ nat (bit_length ?n - 1) \<le> ?n" and hi: "?n < 2 ^ nat (bit_length ?n)" by blast+
  have "pow2 (ilog2 x) = of_int (2 ^ nat (bit_length ?n - 1))"
    using nn by (simp add: il pow2_def)
  also have "\<dots> \<le> of_int ?n" using lo by (simp only: of_int_le_iff)
  also have "\<dots> \<le> x" by simp
  finally have l: "pow2 (ilog2 x) \<le> x" .
  have "x < of_int (?n + 1)" by linarith
  also have "\<dots> \<le> of_int (2 ^ nat (bit_length ?n))" using hi by (simp only: of_int_le_iff)
  also have "\<dots> = pow2 (ilog2 x + 1)" using nn by (simp add: il pow2_def)
  finally show ?thesis using l by simp
next
  case False
  let ?m = "\<lceil>1 / x\<rceil>"
  let ?b = "bit_length (?m - 1)"
  from False assms have x1: "1 < 1 / x" by simp
  then have m2: "2 \<le> ?m" by (simp add: le_ceiling_iff)
  then have m1: "0 < ?m - 1" by simp
  have il: "ilog2 x = - ?b" using False by (simp add: ilog2_def)
  from bit_length_pos [OF m1] have bp: "1 \<le> ?b" .
  from bit_length_bounds [OF m1] have
    lo: "2 ^ nat (?b - 1) \<le> ?m - 1" and hi: "?m - 1 < 2 ^ nat ?b" by blast+
  have "1 / x \<le> of_int ?m" by simp
  also have "\<dots> \<le> of_int (2 ^ nat ?b)" using hi by (simp only: of_int_le_iff)
  finally have "1 / x \<le> 2 ^ nat ?b" by simp
  then have "1 \<le> 2 ^ nat ?b * x" using assms by (simp add: field_simps)
  then have l: "pow2 (ilog2 x) \<le> x" using bp by (simp add: il pow2_def field_simps)
  have "(of_int (2 ^ nat (?b - 1)) :: rat) \<le> of_int (?m - 1)" using lo by (simp only: of_int_le_iff)
  also have "\<dots> < 1 / x" using ceiling_correct [of "1 / x"] by simp
  finally have "2 ^ nat (?b - 1) < 1 / x" by simp
  then have u: "x * 2 ^ nat (?b - 1) < 1" using assms by (simp add: field_simps)
  have "pow2 (ilog2 x + 1) = pow2 (- (?b - 1))" by (simp add: il)
  also have "\<dots> = 1 / pow2 (?b - 1)" by (rule pow2_neg)
  also have "\<dots> = 1 / 2 ^ nat (?b - 1)" using bp by (simp add: pow2_def)
  finally have e: "pow2 (ilog2 x + 1) = 1 / 2 ^ nat (?b - 1)" .
  have "x < 1 / 2 ^ nat (?b - 1)" using u by (simp add: field_simps)
  then have "x < pow2 (ilog2 x + 1)" by (simp only: e)
  with l show ?thesis by simp
qed

lemma ilog2_ge: "pow2 k \<le> x \<Longrightarrow> k \<le> ilog2 x"
proof -
  assume a: "pow2 k \<le> x"
  with pow2_pos [of k] have "0 < x" by simp
  from ilog2_bounds [OF this] a have "pow2 k < pow2 (ilog2 x + 1)" by simp
  then show ?thesis by (simp add: pow2_less_iff)
qed

lemma ilog2_less: "0 < x \<Longrightarrow> x < pow2 k \<Longrightarrow> ilog2 x < k"
proof -
  assume "0 < x" and a: "x < pow2 k"
  from ilog2_bounds [OF \<open>0 < x\<close>] a have "pow2 (ilog2 x) < pow2 k" by simp
  then show ?thesis by (simp add: pow2_less_iff)
qed

lemma ilog2_mono: "0 < x \<Longrightarrow> x \<le> y \<Longrightarrow> ilog2 x \<le> ilog2 y"
proof -
  assume "0 < x" "x \<le> y"
  with ilog2_bounds [of x] have "pow2 (ilog2 x) \<le> y" by simp
  then show ?thesis by (rule ilog2_ge)
qed

subsection \<open>Rounding to the nearest integer\<close>

lemma rhe_of_int: "round_half_even (of_int m) = m"
  by (simp add: round_half_even_def)

lemma rhe_ge_floor: "\<lfloor>x\<rfloor> \<le> round_half_even x"
  by (simp add: round_half_even_def Let_def)

lemma rhe_le_floor1: "round_half_even x \<le> \<lfloor>x\<rfloor> + 1"
  by (simp add: round_half_even_def Let_def)

lemma rhe_down: "x - of_int \<lfloor>x\<rfloor> < 1 / 2 \<Longrightarrow> round_half_even x = \<lfloor>x\<rfloor>"
  by (simp add: round_half_even_def Let_def)

lemma rhe_up: "1 / 2 < x - of_int \<lfloor>x\<rfloor> \<Longrightarrow> round_half_even x = \<lfloor>x\<rfloor> + 1"
  by (simp add: round_half_even_def Let_def)

lemma rhe_tie:
  "x - of_int \<lfloor>x\<rfloor> = 1 / 2 \<Longrightarrow> round_half_even x = (if even \<lfloor>x\<rfloor> then \<lfloor>x\<rfloor> else \<lfloor>x\<rfloor> + 1)"
  by (simp add: round_half_even_def Let_def)

lemma rhe_mono: "x \<le> y \<Longrightarrow> round_half_even x \<le> round_half_even y"
proof -
  assume xy: "x \<le> y"
  then have f: "\<lfloor>x\<rfloor> \<le> \<lfloor>y\<rfloor>" by (rule floor_mono)
  show ?thesis
  proof (cases "\<lfloor>x\<rfloor> = \<lfloor>y\<rfloor>")
    case True
    define f where "f = \<lfloor>y\<rfloor>"
    have fx: "\<lfloor>x\<rfloor> = f" and fy: "\<lfloor>y\<rfloor> = f" using True by (simp_all add: f_def)
    consider "x - of_int f < 1 / 2" | "1 / 2 < y - of_int f"
      | "1 / 2 \<le> x - of_int f" "y - of_int f \<le> 1 / 2" by linarith
    then show ?thesis
    proof cases
      case 1
      then have "round_half_even x = f" using rhe_down [of x] by (simp add: fx)
      with rhe_ge_floor [of y] show ?thesis by (simp add: fy)
    next
      case 2
      then have "round_half_even y = f + 1" using rhe_up [of y] by (simp add: fy)
      with rhe_le_floor1 [of x] show ?thesis by (simp add: fx)
    next
      case 3
      with xy have "x - of_int f = 1 / 2" "y - of_int f = 1 / 2" by linarith+
      then have "round_half_even x = round_half_even y"
        using rhe_tie [of x] rhe_tie [of y] by (simp add: fx fy)
      then show ?thesis by simp
    qed
  next
    case False
    with f have "\<lfloor>x\<rfloor> + 1 \<le> \<lfloor>y\<rfloor>" by simp
    with rhe_le_floor1 [of x] rhe_ge_floor [of y] show ?thesis by linarith
  qed
qed

lemma rhe_minus: "round_half_even (- x) = - round_half_even x"
proof (cases "of_int \<lfloor>x\<rfloor> = x")
  case True
  have "round_half_even (of_int (- \<lfloor>x\<rfloor>)) = - \<lfloor>x\<rfloor>" by (rule rhe_of_int)
  moreover have "round_half_even (of_int \<lfloor>x\<rfloor>) = \<lfloor>x\<rfloor>" by (rule rhe_of_int)
  ultimately show ?thesis using True by simp
next
  case False
  define f where "f = \<lfloor>x\<rfloor>"
  define d where "d = x - of_int f"
  have f': "\<lfloor>- x\<rfloor> = - f - 1"
    using False by (auto simp: floor_minus ceiling_altdef f_def)
  have d': "- x - of_int (- f - 1) = 1 - d" by (simp add: d_def)
  consider "d < 1 / 2" | "1 / 2 < d" | "d = 1 / 2" by linarith
  then show ?thesis
  proof cases
    case 1
    then have "round_half_even x = f" using rhe_down [of x] by (simp add: d_def f_def)
    moreover from 1 have "1 / 2 < - x - of_int \<lfloor>- x\<rfloor>" unfolding f' d' by simp
    then have "round_half_even (- x) = - f" using rhe_up [of "- x"] by (simp add: f')
    ultimately show ?thesis by simp
  next
    case 2
    then have "round_half_even x = f + 1" using rhe_up [of x] by (simp add: d_def f_def)
    moreover from 2 have "- x - of_int \<lfloor>- x\<rfloor> < 1 / 2" unfolding f' d' by simp
    then have "round_half_even (- x) = - f - 1" using rhe_down [of "- x"] by (simp add: f')
    ultimately show ?thesis by simp
  next
    case 3
    then have a: "round_half_even x = (if even f then f else f + 1)"
      using rhe_tie [of x] by (simp add: d_def f_def)
    from 3 have "- x - of_int \<lfloor>- x\<rfloor> = 1 / 2" unfolding f' d' by simp
    then have b: "round_half_even (- x) = (if even (- f - 1) then - f - 1 else - f - 1 + 1)"
      using rhe_tie [of "- x"] by (simp only: f')
    show ?thesis unfolding a b by simp
  qed
qed

lemma rhe_error: "\<bar>of_int (round_half_even x) - x\<bar> \<le> 1 / 2"
proof -
  define f where "f = \<lfloor>x\<rfloor>"
  define d where "d = x - of_int f"
  have d0: "0 \<le> d" and d1: "d < 1" by (simp_all add: d_def f_def) linarith
  have x: "x = of_int f + d" by (simp add: d_def)
  consider "d < 1 / 2" | "1 / 2 \<le> d" by linarith
  then show ?thesis
  proof cases
    case 1
    then have "round_half_even x = f" using rhe_down [of x] by (simp add: d_def f_def)
    with 1 d0 show ?thesis by (simp add: x)
  next
    case 2
    have "round_half_even x = f \<or> round_half_even x = f + 1"
      using rhe_ge_floor [of x] rhe_le_floor1 [of x] by (auto simp: f_def)
    moreover have "round_half_even x = f \<Longrightarrow> d = 1 / 2"
      using 2 rhe_up [of x] by (fastforce simp: d_def f_def)
    ultimately show ?thesis using 2 d1 by (auto simp: x)
  qed
qed

subsection \<open>Rounding to the float grid\<close>

lemma quantum_pos: "0 < quantum x"
  by (simp add: quantum_def pow2_pos)

lemma quantum_minus: "quantum (- x) = quantum x"
  by (simp add: quantum_def)

lemma fl_round_quantum:
  "fl_round x = of_int (round_half_even (x / quantum x)) * quantum x"
  by (simp add: fl_round_def quantum_def Let_def rhe_of_int [of 0, simplified])

lemma fl_round_minus: "fl_round (- x) = - fl_round x"
  by (simp add: fl_round_quantum quantum_minus rhe_minus)

lemma fl_round_nonneg: "0 \<le> x \<Longrightarrow> 0 \<le> fl_round x"
proof -
  assume "0 \<le> x"
  then have "0 \<le> x / quantum x" using quantum_pos [of x] by simp
  then have "round_half_even 0 \<le> round_half_even (x / quantum x)" by (rule rhe_mono)
  then have "0 \<le> round_half_even (x / quantum x)" using rhe_of_int [of 0] by simp
  then show ?thesis using quantum_pos [of x] by (simp add: fl_round_quantum)
qed

lemma fl_round_error: "\<bar>fl_round x - x\<bar> \<le> quantum x / 2"
proof -
  let ?q = "quantum x"
  have q: "0 < ?q" by (rule quantum_pos)
  have "fl_round x - x = (of_int (round_half_even (x / ?q)) - x / ?q) * ?q"
    using q by (simp add: fl_round_quantum field_simps)
  then have "\<bar>fl_round x - x\<bar> = \<bar>of_int (round_half_even (x / ?q)) - x / ?q\<bar> * ?q"
    using q by (simp add: abs_mult)
  also have "\<dots> \<le> (1 / 2) * ?q"
    using rhe_error [of "x / ?q"] q by (intro mult_right_mono) simp_all
  finally show ?thesis by simp
qed

lemma pow2_split: "pow2 (int n + k) = of_int (2 ^ n) * pow2 k"
  by (simp add: pow2_add pow2_nat)

text \<open>Rounding is monotone.\<close>

lemma fl_round_mono_pos:
  assumes "0 < x" "x \<le> y"
  shows "fl_round x \<le> fl_round y"
proof -
  define ex where "ex = max (ilog2 x) (- 1022)"
  define ey where "ey = max (ilog2 y) (- 1022)"
  from assms have y: "0 < y" by simp
  have ax: "\<bar>x\<bar> = x" and ay: "\<bar>y\<bar> = y" using assms by simp_all
  have qx: "quantum x = pow2 (ex - 52)" by (simp add: quantum_def ax ex_def)
  have qy: "quantum y = pow2 (ey - 52)" by (simp add: quantum_def ay ey_def)
  have le: "ex \<le> ey" using ilog2_mono [OF assms] unfolding ex_def ey_def by linarith
  show ?thesis
  proof (cases "ex = ey")
    case True
    then have q: "quantum x = quantum y" by (simp add: qx qy)
    have "x / quantum y \<le> y / quantum y"
      using assms quantum_pos [of y] by (simp add: divide_right_mono)
    then have "round_half_even (x / quantum y) \<le> round_half_even (y / quantum y)"
      by (rule rhe_mono)
    then have "(of_int (round_half_even (x / quantum y)) :: rat)
        \<le> of_int (round_half_even (y / quantum y))" by (simp only: of_int_le_iff)
    then show ?thesis
      unfolding fl_round_quantum q using quantum_pos [of y] by (simp add: mult_right_mono)
  next
    case False
    with le have lt: "ex + 1 \<le> ey" by simp
    have "- 1022 \<le> ex" unfolding ex_def by linarith
    with lt have ey: "ey = ilog2 y" unfolding ey_def by linarith
    \<comment> \<open>the rounded \<open>x\<close> stays below the next power of two\<close>
    have "x < pow2 (ilog2 x + 1)" using ilog2_bounds [OF assms(1)] by simp
    also have "\<dots> \<le> pow2 (ex + 1)" unfolding ex_def by (intro pow2_mono) linarith
    finally have xlt: "x < pow2 (ex + 1)" .
    have split: "pow2 (ex + 1) = of_int (2 ^ 53) * quantum x"
      using pow2_split [of 53 "ex - 52"] by (simp add: qx add.commute)
    have "x / quantum x \<le> of_int (2 ^ 53)"
      using xlt quantum_pos [of x] unfolding split by (simp add: field_simps)
    then have "round_half_even (x / quantum x) \<le> round_half_even (of_int (2 ^ 53))"
      by (rule rhe_mono)
    then have "round_half_even (x / quantum x) \<le> 2 ^ 53" by (simp only: rhe_of_int)
    then have "(of_int (round_half_even (x / quantum x)) :: rat) \<le> of_int (2 ^ 53)"
      by (simp only: of_int_le_iff)
    then have "fl_round x \<le> of_int (2 ^ 53) * quantum x"
      unfolding fl_round_quantum using quantum_pos [of x] by (intro mult_right_mono) simp_all
    then have up: "fl_round x \<le> pow2 (ex + 1)" unfolding split .
    \<comment> \<open>the rounded \<open>y\<close> stays above its own power of two\<close>
    have split': "pow2 ey = of_int (2 ^ 52) * quantum y"
      using pow2_split [of 52 "ey - 52"] by (simp add: qy)
    have "pow2 ey \<le> y" using ilog2_bounds [OF y] by (simp add: ey)
    then have "of_int (2 ^ 52) \<le> y / quantum y"
      using quantum_pos [of y] unfolding split' by (simp add: field_simps)
    then have "round_half_even (of_int (2 ^ 52)) \<le> round_half_even (y / quantum y)"
      by (rule rhe_mono)
    then have "2 ^ 52 \<le> round_half_even (y / quantum y)" by (simp only: rhe_of_int)
    then have "(of_int (2 ^ 52) :: rat) \<le> of_int (round_half_even (y / quantum y))"
      by (simp only: of_int_le_iff)
    then have "of_int (2 ^ 52) * quantum y \<le> fl_round y"
      unfolding fl_round_quantum using quantum_pos [of y] by (intro mult_right_mono) simp_all
    then have lo: "pow2 ey \<le> fl_round y" unfolding split' .
    have "pow2 (ex + 1) \<le> pow2 ey" using lt by (rule pow2_mono)
    with up lo show ?thesis by linarith
  qed
qed

lemma fl_round_mono: "x \<le> y \<Longrightarrow> fl_round x \<le> fl_round y"
proof -
  assume xy: "x \<le> y"
  consider "0 < x" | "x \<le> 0" "0 \<le> y" | "y < 0" by linarith
  then show ?thesis
  proof cases
    case 1
    then show ?thesis using xy by (rule fl_round_mono_pos)
  next
    case 2
    from 2(1) have "0 \<le> fl_round (- x)" by (intro fl_round_nonneg) simp
    then have "fl_round x \<le> 0" by (simp add: fl_round_minus)
    with fl_round_nonneg [OF 2(2)] show ?thesis by simp
  next
    case 3
    with xy have "0 < - y" "- y \<le> - x" by simp_all
    then have "fl_round (- y) \<le> fl_round (- x)" by (rule fl_round_mono_pos)
    then show ?thesis by (simp add: fl_round_minus)
  qed
qed

text \<open>Every \<open>m * 2^k\<close> with \<open>|m| < 2^53\<close> and \<open>k \<ge> -1074\<close> is a float.\<close>

lemma fl_round_representable:
  assumes m: "\<bar>m\<bar> < 2 ^ 53" and k: "- 1074 \<le> k"
  shows "fl_round (of_int m * pow2 k) = of_int m * pow2 k"
proof (cases "m = 0")
  case True
  then show ?thesis by (simp add: fl_round_def)
next
  case False
  let ?x = "of_int m * pow2 k :: rat"
  let ?e = "max (ilog2 \<bar>?x\<bar>) (- 1022)"
  have ax: "\<bar>?x\<bar> = of_int \<bar>m\<bar> * pow2 k" using pow2_pos [of k] by (simp add: abs_mult)
  have pos: "0 < \<bar>?x\<bar>" using False pow2_pos [of k] by simp
  have "(of_int \<bar>m\<bar> :: rat) < of_int (2 ^ 53)" using m by (simp only: of_int_less_iff)
  then have "\<bar>?x\<bar> < of_int (2 ^ 53) * pow2 k"
    unfolding ax using pow2_pos [of k] by (intro mult_strict_right_mono)
  also have "\<dots> = pow2 (53 + k)" using pow2_split [of 53 k] by simp
  finally have "ilog2 \<bar>?x\<bar> < 53 + k" using pos by (intro ilog2_less)
  with k have e: "?e \<le> k + 52" by simp
  define j where "j = nat (k + 52 - ?e)"
  have kj: "k = int j + (?e - 52)" using e by (simp add: j_def)
  have "pow2 k = pow2 (int j) * pow2 (?e - 52)" by (subst kj) (rule pow2_add)
  then have pk: "pow2 k = of_int (2 ^ j) * quantum ?x" by (simp add: pow2_nat quantum_def)
  have "?x / quantum ?x = of_int (m * 2 ^ j)"
    using quantum_pos [of ?x] by (subst pk) simp
  then have "round_half_even (?x / quantum ?x) = m * 2 ^ j" by (simp only: rhe_of_int)
  then have "fl_round ?x = of_int (m * 2 ^ j) * quantum ?x" by (simp only: fl_round_quantum)
  also have "\<dots> = ?x" by (subst (2) pk) simp
  finally show ?thesis .
qed

lemma fl_round_pow2: "- 1074 \<le> k \<Longrightarrow> fl_round (pow2 k) = pow2 k"
  using fl_round_representable [of 1 k] by simp

lemma fl_round_ge_pow2: "- 1074 \<le> k \<Longrightarrow> pow2 k \<le> x \<Longrightarrow> pow2 k \<le> fl_round x"
  using fl_round_mono [of "pow2 k" x] by (simp add: fl_round_pow2)

lemma fl_round_le_pow2: "- 1074 \<le> k \<Longrightarrow> x \<le> pow2 k \<Longrightarrow> fl_round x \<le> pow2 k"
  using fl_round_mono [of x "pow2 k"] by (simp add: fl_round_pow2)

subsection \<open>Evaluation of float operations on numerals\<close>

lemma floor_rat_numeral:
  "\<lfloor>numeral a / numeral b :: rat\<rfloor> = numeral a div numeral b"
  "\<lfloor>- (numeral a / numeral b) :: rat\<rfloor> = - numeral a div numeral b"
  "\<lfloor>1 / numeral b :: rat\<rfloor> = 1 div numeral b"
  "\<lfloor>- (1 / numeral b) :: rat\<rfloor> = - 1 div numeral b"
  using floor_divide_of_int_eq [of "numeral a" "numeral b", where ?'a = rat]
    floor_divide_of_int_eq [of "- numeral a" "numeral b", where ?'a = rat]
    floor_divide_of_int_eq [of 1 "numeral b", where ?'a = rat]
    floor_divide_of_int_eq [of "- 1" "numeral b", where ?'a = rat]
  by simp_all

lemma ceiling_rat_numeral:
  "\<lceil>numeral a / numeral b :: rat\<rceil> = - (- numeral a div numeral b)"
  "\<lceil>- (numeral a / numeral b) :: rat\<rceil> = - (numeral a div numeral b)"
  "\<lceil>1 / numeral b :: rat\<rceil> = - (- 1 div numeral b)"
  "\<lceil>- (1 / numeral b) :: rat\<rceil> = - (1 div numeral b)"
  unfolding ceiling_def by (simp_all add: floor_rat_numeral)

lemmas float_eval =
  float_lit_def to_float_def fl_round_def ilog2_def bit_length.simps pow2_def
  round_half_even_def Let_def floor_rat_numeral ceiling_rat_numeral

text \<open>The steps of \<open>calculate_emi\<close> once the monthly rate is known to be non-zero.\<close>

lemma calculate_emi_steps:
  assumes "py_div annual_rate (Fin 12) = Inr m"
    and "py_div m (Fin 100) = Inr r"
    and "\<not> py_eq r (Fin 0)"
    and "py_pow libm (py_add (Fin 1) r) (py_mul tenure_years (Fin 12)) = Inr p"
  shows "calculate_emi libm princ annual_rate tenure_years =
     (case py_div (py_mul (py_mul princ r) p) (py_sub p (Fin 1)) of
        Inl e \<Rightarrow> Inl e
      | Inr emi \<Rightarrow>
          Inr \<lparr>emi_amount = py_round2 emi,
               total_payment = py_round2 (py_mul emi (py_mul tenure_years (Fin 12))),
               total_interest =
                 py_round2 (py_sub (py_mul emi (py_mul tenure_years (Fin 12))) princ)\<rparr>)"
  unfolding calculate_emi_def emi_formula_def Let_def
  by (simp only: assms sum.case if_False)

lemma pow2_1024_gt: "x \<le> 2 ^ 64 \<Longrightarrow> x < pow2 1024"
proof -
  assume "x \<le> 2 ^ 64"
  also have "(2::rat) ^ 64 = pow2 64" by (simp add: pow2_def)
  also have "\<dots> < pow2 1024" by (simp add: pow2_less_iff)
  finally show ?thesis .
qed

lemma to_float_bounded:
  assumes "fl_round lo = lo" "fl_round hi = hi" "lo \<le> x" "x \<le> hi" "- (2 ^ 64) \<le> lo" "hi \<le> 2 ^ 64"
  shows "\<exists>y. to_float x = Fin y \<and> lo \<le> y \<and> y \<le> hi"
proof -
  have l: "lo \<le> fl_round x" using fl_round_mono [OF assms(3)] by (simp add: assms(1))
  have h: "fl_round x \<le> hi" using fl_round_mono [OF assms(4)] by (simp add: assms(2))
  have "fl_round x < pow2 1024" using h assms(6) pow2_1024_gt [of "fl_round x"] by simp
  moreover have "- fl_round x < pow2 1024"
    using l assms(5) pow2_1024_gt [of "- fl_round x"] by simp
  ultimately have "to_float x = Fin (fl_round x)" by (simp add: to_float_def Let_def)
  with l h show ?thesis by simp
qed

lemma fl_round_int_small: "\<bar>m\<bar> < 2 ^ 53 \<Longrightarrow> fl_round (of_int m) = of_int m"
  using fl_round_representable [of m 0] by (simp add: pow2_def)

lemma fl_round_half: "fl_round (1 / 2) = 1 / 2"
  using fl_round_pow2 [of "- 1"] by (simp add: pow2_def)

lemma fl_round_numeral_small [simp]:
  "numeral k < (2::int) ^ 53 \<Longrightarrow> fl_round (numeral k) = numeral k"
  using fl_round_int_small [of "numeral k"] by simp

lemma py_round2_bounded:
  assumes "of_int lo \<le> x" "x \<le> of_int hi" "\<bar>lo\<bar> < 2 ^ 53" "\<bar>hi\<bar> < 2 ^ 53"
  shows "\<exists>y. py_round2 (Fin x) = Fin y \<and> of_int lo \<le> y \<and> y \<le> of_int hi"
proof -
  have "of_int (lo * 100) \<le> x * 100" using assms(1) by simp
  then have "round_half_even (of_int (lo * 100)) \<le> round_half_even (x * 100)" by (rule rhe_mono)
  then have "lo * 100 \<le> round_half_even (x * 100)" by (simp only: rhe_of_int)
  then have "(of_int (lo * 100) :: rat) \<le> of_int (round_half_even (x * 100))"
    by (simp only: of_int_le_iff)
  then have l: "of_int lo \<le> (of_int (round_half_even (x * 100)) :: rat) / 100" by simp
  have "x * 100 \<le> of_int (hi * 100)" using assms(2) by simp
  then have "round_half_even (x * 100) \<le> round_half_even (of_int (hi * 100))" by (rule rhe_mono)
  then have "round_half_even (x * 100) \<le> hi * 100" by (simp only: rhe_of_int)
  then have "(of_int (round_half_even (x * 100)) :: rat) \<le> of_int (hi * 100)"
    by (simp only: of_int_le_iff)
  then have h: "(of_int (round_half_even (x * 100)) :: rat) / 100 \<le> of_int hi" by simp
  have b1: "- (2 ^ 64) \<le> (of_int lo :: rat)"
  proof -
    have "- (2 ^ 64) \<le> lo" using assms(3) by simp
    then have "(of_int (- (2 ^ 64)) :: rat) \<le> of_int lo" by (simp only: of_int_le_iff)
    then show ?thesis by simp
  qed
  have b2: "(of_int hi :: rat) \<le> 2 ^ 64"
  proof -
    have "hi \<le> 2 ^ 64" using assms(4) by simp
    then have "(of_int hi :: rat) \<le> of_int (2 ^ 64)" by (simp only: of_int_le_iff)
    then show ?thesis by simp
  qed
  from to_float_bounded [OF fl_round_int_small [OF assms(3)] fl_round_int_small [OF assms(4)] l h b1 b2]
  show ?thesis by simp
qed

subsection \<open>The EMI calculator\<close>

lemma to_float_zero: "to_float 0 = Fin 0"
  by (simp add: to_float_def fl_round_def pow2_def)

lemma py_div_nonzero: "y \<noteq> 0 \<Longrightarrow> \<exists>z. py_div a (Fin y) = Inr z"
  by (cases a) simp_all

lemma py_div_zero: "py_div a (Fin 0) = Inl ZeroDivisionError"
  by simp

lemma py_eq_le: "py_eq a b \<Longrightarrow> py_le a b"
  by (cases a; cases b) (simp_all add: py_eq_def)

text \<open>
  Claim C8. The claim says that \<open>calculate_emi\<close> never divides by zero when the tenure
  is positive and the rate is not negative. The guard \<open>monthly_rate == 0\<close> misses the
  positive rates so small that \<open>1 + monthly_rate\<close> rounds to \<open>1.0\<close>: there
  \<open>1.0 ** tenure_months\<close> is \<open>1.0\<close> and the denominator is \<open>0.0\<close>. With
  principal 100000, annual rate \<open>1e-15\<close> and five years the call raises
  \<open>ZeroDivisionError\<close>, whatever the C library computes.
\<close>

theorem calculate_emi_tiny_rate:
  "calculate_emi libm (Fin 100000) (float_lit (1 / 10 ^ 15)) (Fin 5) = Inl ZeroDivisionError"
proof -
  have lit: "float_lit (1 / 10 ^ 15) = Fin (2535301200456459 / 2535301200456458802993406410752)"
    by (simp add: float_eval)
  have m: "py_div (Fin (2535301200456459 / 2535301200456458802993406410752)) (Fin 12)
      = Inr (Fin (845100400152153 / 10141204801825835211973625643008))"
    by (simp add: float_eval)
  have r: "py_div (Fin (845100400152153 / 10141204801825835211973625643008)) (Fin 100)
      = Inr (Fin (8653828097558047 / 10384593717069655257060992658440192))"
    by (simp add: float_eval)
  have nz: "\<not> py_eq (Fin (8653828097558047 / 10384593717069655257060992658440192)) (Fin 0)"
    by (simp add: py_eq_def)
  have b: "py_add (Fin 1) (Fin (8653828097558047 / 10384593717069655257060992658440192)) = Fin 1"
    by (simp add: float_eval)
  have p: "py_pow libm (py_add (Fin 1) (Fin (8653828097558047 / 10384593717069655257060992658440192)))
      (py_mul (Fin 5) (Fin 12)) = Inr (Fin 1)"
    unfolding b by (simp add: py_pow_def float_eval)
  have d: "py_sub (Fin 1) (Fin 1) = Fin 0"
    by (simp add: py_sub_def float_eval)
  show ?thesis
    unfolding lit calculate_emi_steps [OF m r nz p] d by simp
qed

text \<open>The second half of the claim: a zero tenure always ends in \<open>ZeroDivisionError\<close>.\<close>

lemma calculate_emi_zero_tenure:
  "calculate_emi libm princ annual_rate (Fin 0) = Inl ZeroDivisionError"
proof -
  obtain m where m: "py_div annual_rate (Fin 12) = Inr m"
    using py_div_nonzero [of 12 annual_rate] by auto
  obtain r where r: "py_div m (Fin 100) = Inr r"
    using py_div_nonzero [of 100 m] by auto
  have tm: "py_mul (Fin 0) (Fin 12) = Fin 0" by (simp add: to_float_zero)
  show ?thesis
  proof (cases "py_eq r (Fin 0)")
    case True
    then show ?thesis
      unfolding calculate_emi_def Let_def by (simp only: m r tm sum.case if_True py_div_zero)
  next
    case False
    have p: "py_pow libm (py_add (Fin 1) r) (py_mul (Fin 0) (Fin 12)) = Inr (Fin 1)"
      unfolding tm by (simp add: py_pow_def)
    have d: "py_sub (Fin 1) (Fin 1) = Fin 0" by (simp add: py_sub_def to_float_zero)
    show ?thesis
      unfolding calculate_emi_steps [OF m r False p] d by simp
  qed
qed

subsection \<open>The rule engine\<close>

text \<open>
  Claim C4. Without an income \<open>apply_safety_rules\<close> approves. With an income it
  approves exactly when \<open>emi_amount <= (user_income / 12) * 0.3\<close> holds for the floats
  the code computes, so an instalment equal to that bound is approved.
\<close>

theorem apply_safety_rules_verdict:
  "apply_safety_rules emi None = Inr \<lparr>approved = True, message = MsgIncomeNotProvided\<rparr>
   \<and> (\<exists>monthly v. py_div inc (Fin 12) = Inr monthly
         \<and> apply_safety_rules emi (Some inc) = Inr v
         \<and> (approved v \<longleftrightarrow> py_le emi (py_mul monthly (float_lit (3 / 10))))
         \<and> (py_eq emi (py_mul monthly (float_lit (3 / 10))) \<longrightarrow> approved v))"
proof -
  obtain monthly where m: "py_div inc (Fin 12) = Inr monthly"
    using py_div_nonzero [of 12 inc] by auto
  let ?max = "py_mul monthly (float_lit (3 / 10))"
  let ?v = "if py_le emi ?max
            then \<lparr>approved = True, message = MsgSafeEMI emi ?max\<rparr>
            else \<lparr>approved = False, message = MsgRiskyEMI emi ?max\<rparr>"
  have v: "apply_safety_rules emi (Some inc) = Inr ?v"
    by (simp add: apply_safety_rules_def m Let_def del: py_div.simps)
  have "approved ?v \<longleftrightarrow> py_le emi ?max" by simp
  moreover have "py_eq emi ?max \<longrightarrow> approved ?v" using py_eq_le [of emi ?max] by simp
  moreover have "apply_safety_rules emi None
      = Inr \<lparr>approved = True, message = MsgIncomeNotProvided\<rparr>"
    by (simp add: apply_safety_rules_def)
  ultimately show ?thesis using m v by blast
qed

lemma monthly_income_50000: "py_div (Fin 600000) (Fin 12) = Inr (Fin 50000)"
  by (simp add: float_eval)

lemma max_emi_15000: "py_mul (Fin 50000) (float_lit (3 / 10)) = Fin 15000"
  by (simp add: float_eval)

theorem apply_safety_rules_verdict_witness:
  "py_eq (Fin 15000) (py_mul (Fin 50000) (float_lit (3 / 10)))
   \<and> (\<exists>v. apply_safety_rules (Fin 15000) (Some (Fin 600000)) = Inr v \<and> approved v)"
proof -
  have e: "py_eq (Fin 15000) (py_mul (Fin 50000) (float_lit (3 / 10)))"
    unfolding max_emi_15000 by (simp add: py_eq_def)
  from apply_safety_rules_verdict [of "Fin 15000" "Fin 600000"]
  obtain monthly v where
    "py_div (Fin 600000) (Fin 12) = Inr monthly"
    "apply_safety_rules (Fin 15000) (Some (Fin 600000)) = Inr v"
    "py_eq (Fin 15000) (py_mul monthly (float_lit (3 / 10))) \<longrightarrow> approved v"
    by blast
  with e monthly_income_50000 show ?thesis by auto
qed

subsection \<open>The main endpoint with its fixed rate and tenure\<close>

lemma rate_95_steps:
  "float_lit (19 / 2) = Fin (19 / 2)"
  "py_div (Fin (19 / 2)) (Fin 12) = Inr (Fin (7130699410003285 / 9007199254740992))"
  "py_div (Fin (7130699410003285 / 9007199254740992)) (Fin 100) = Inr (Fin monthly_rate_95)"
  "\<not> py_eq (Fin monthly_rate_95) (Fin 0)"
  "py_mul (Fin 5) (Fin 12) = Fin 60"
  "py_add (Fin 1) (Fin monthly_rate_95) = Fin emi_base"
  by (simp_all add: float_eval py_eq_def monthly_rate_95_def emi_base_def)

lemma py_pow_emi_base:
  "py_pow libm (Fin emi_base) (Fin 60) = libm emi_base 60"
  by (cases "libm emi_base 60")
     (simp_all add: py_pow_def emi_base_def is_integer_def is_odd_integer_def)

lemma libm_pow_okE:
  assumes "libm_pow_ok libm"
  obtains p where "libm emi_base 60 = Inr (Fin p)" "3 / 2 \<le> p" "p \<le> 2"
  using assms unfolding libm_pow_ok_def
  by (auto split: sum.splits pyfloat.splits)

text \<open>
  With the fixed rate and tenure of the main endpoint, the instalment is one division
  by a float \<open>d\<close> between \<open>1/2\<close> and \<open>1\<close>.
\<close>

lemma calculate_emi_fixed:
  assumes "libm_pow_ok libm"
  shows "\<exists>p d. 3 / 2 \<le> p \<and> p \<le> 2 \<and> 1 / 2 \<le> d \<and> d \<le> 1 \<and>
    (\<forall>princ. calculate_emi libm princ (float_lit (19 / 2)) (Fin 5) =
       (case py_div (py_mul (py_mul princ (Fin monthly_rate_95)) (Fin p)) (Fin d) of
          Inl e \<Rightarrow> Inl e
        | Inr emi \<Rightarrow>
            Inr \<lparr>emi_amount = py_round2 emi,
                 total_payment = py_round2 (py_mul emi (Fin 60)),
                 total_interest = py_round2 (py_sub (py_mul emi (Fin 60)) princ)\<rparr>))"
proof -
  from assms obtain p where p: "libm emi_base 60 = Inr (Fin p)" "3 / 2 \<le> p" "p \<le> 2"
    by (rule libm_pow_okE)
  have pw: "py_pow libm (py_add (Fin 1) (Fin monthly_rate_95)) (py_mul (Fin 5) (Fin 12))
      = Inr (Fin p)"
    by (simp only: rate_95_steps py_pow_emi_base p)
  have "\<exists>d. to_float (p - 1) = Fin d \<and> 1 / 2 \<le> d \<and> d \<le> 1"
    using p by (intro to_float_bounded) (simp_all add: fl_round_half fl_round_int_small [of 1, simplified])
  then obtain d where d: "py_sub (Fin p) (Fin 1) = Fin d" "1 / 2 \<le> d" "d \<le> 1"
    by (auto simp: py_sub_def)
  have "calculate_emi libm princ (float_lit (19 / 2)) (Fin 5) =
       (case py_div (py_mul (py_mul princ (Fin monthly_rate_95)) (Fin p)) (Fin d) of
          Inl e \<Rightarrow> Inl e
        | Inr emi \<Rightarrow>
            Inr \<lparr>emi_amount = py_round2 emi,
                 total_payment = py_round2 (py_mul emi (Fin 60)),
                 total_interest = py_round2 (py_sub (py_mul emi (Fin 60)) princ)\<rparr>)" for princ
    unfolding rate_95_steps(1)
    by (simp only: calculate_emi_steps [OF rate_95_steps(2) rate_95_steps(3) rate_95_steps(4) pw]
        d(1) rate_95_steps(5))
  with p d show ?thesis by blast
qed

lemma calculate_emi_fixed_returns:
  assumes "libm_pow_ok libm"
  shows "\<exists>t. calculate_emi libm princ (float_lit (19 / 2)) (Fin 5) = Inr t"
proof -
  from calculate_emi_fixed [OF assms] obtain p d where d: "1 / 2 \<le> d" and
    c: "\<And>princ. calculate_emi libm princ (float_lit (19 / 2)) (Fin 5) =
       (case py_div (py_mul (py_mul princ (Fin monthly_rate_95)) (Fin p)) (Fin d) of
          Inl e \<Rightarrow> Inl e
        | Inr emi \<Rightarrow>
            Inr \<lparr>emi_amount = py_round2 emi,
                 total_payment = py_round2 (py_mul emi (Fin 60)),
                 total_interest = py_round2 (py_sub (py_mul emi (Fin 60)) princ)\<rparr>)"
    by blast
  from d have "d \<noteq> 0" by auto
  from py_div_nonzero [OF this]
  obtain z where "py_div (py_mul (py_mul princ (Fin monthly_rate_95)) (Fin p)) (Fin d) = Inr z"
    by blast
  then show ?thesis by (simp only: c sum.case) blast
qed

lemma calculate_emi_default_large:
  assumes "libm_pow_ok libm"
  shows "\<exists>t a. calculate_emi libm (Fin 1500000) (float_lit (19 / 2)) (Fin 5) = Inr t
           \<and> emi_amount t = Fin a \<and> 16384 \<le> a"
proof -
  from calculate_emi_fixed [OF assms] obtain p d
    where p: "3 / 2 \<le> p" "p \<le> 2" and d: "1 / 2 \<le> d" "d \<le> 1" and
    c: "\<And>princ. calculate_emi libm princ (float_lit (19 / 2)) (Fin 5) =
       (case py_div (py_mul (py_mul princ (Fin monthly_rate_95)) (Fin p)) (Fin d) of
          Inl e \<Rightarrow> Inl e
        | Inr emi \<Rightarrow>
            Inr \<lparr>emi_amount = py_round2 emi,
                 total_payment = py_round2 (py_mul emi (Fin 60)),
                 total_interest = py_round2 (py_sub (py_mul emi (Fin 60)) princ)\<rparr>)"
    by blast
  have n1: "py_mul (Fin 1500000) (Fin monthly_rate_95) = Fin (6528350289919999 / 549755813888)"
    by (simp add: float_eval monthly_rate_95_def)
  have "16384 \<le> 6528350289919999 / 549755813888 * p"
    "6528350289919999 / 549755813888 * p \<le> 32768" using p by simp_all
  then have "\<exists>y. to_float (6528350289919999 / 549755813888 * p) = Fin y \<and> 16384 \<le> y \<and> y \<le> 32768"
    by (intro to_float_bounded) simp_all
  then obtain n2 where n2: "py_mul (Fin (6528350289919999 / 549755813888)) (Fin p) = Fin n2"
    "16384 \<le> n2" "n2 \<le> 32768" by auto
  from d have dnz: "d \<noteq> 0" by auto
  have "16384 \<le> n2 / d" "n2 / d \<le> 65536"
    using n2 d by (simp_all add: field_simps)
  then have "\<exists>y. to_float (n2 / d) = Fin y \<and> 16384 \<le> y \<and> y \<le> 65536"
    by (intro to_float_bounded) simp_all
  then obtain e where e: "py_div (Fin n2) (Fin d) = Inr (Fin e)" "16384 \<le> e" "e \<le> 65536"
    using dnz by auto
  from py_round2_bounded [of 16384 e 65536] e
  obtain a where a: "py_round2 (Fin e) = Fin a" "16384 \<le> a" by auto
  have "calculate_emi libm (Fin 1500000) (float_lit (19 / 2)) (Fin 5) =
      Inr \<lparr>emi_amount = Fin a,
           total_payment = py_round2 (py_mul (Fin e) (Fin 60)),
           total_interest = py_round2 (py_sub (py_mul (Fin e) (Fin 60)) (Fin 1500000))\<rparr>"
    by (simp only: c n1 n2(1) e(1) sum.case a(1))
  with a(2) show ?thesis by simp
qed

lemmas intent_eval =
  detect_intent_def any_word_in_def lower_def lower_char_def py_in_eval Let_def

lemma detect_intent_cases:
  "detect_intent q \<in>
     {''emi_calculation'', ''budget_search'', ''car_comparison'', ''car_search'', ''general_info''}"
  by (simp add: detect_intent_def Let_def)

lemma apply_safety_rules_returns: "\<exists>s. apply_safety_rules emi inc = Inr s"
proof (cases inc)
  case None
  then show ?thesis by (simp add: apply_safety_rules_def)
next
  case (Some i)
  obtain monthly where "py_div i (Fin 12) = Inr monthly"
    using py_div_nonzero [of 12 i] by auto
  then show ?thesis
    by (simp add: apply_safety_rules_def Some Let_def del: py_div.simps)
qed

lemma process_user_query_emi:
  "detect_intent (query qd) = ''emi_calculation'' \<Longrightarrow>
   process_user_query libm cars qd =
     (case calculate_emi libm (or_default (max_budget qd) (Fin 1500000)) (float_lit (19 / 2)) (Fin 5) of
        Inl e \<Rightarrow> Inl e
      | Inr t \<Rightarrow>
          (case apply_safety_rules (emi_amount t) (user_income qd) of
             Inl e \<Rightarrow> Inl e
           | Inr s \<Rightarrow> Inr (make_response ''emi_calculation'' qd (EmiOut t) s)))"
  by (simp add: process_user_query_def Let_def)

lemma process_user_query_other:
  "detect_intent (query qd) \<noteq> ''emi_calculation'' \<Longrightarrow>
   \<exists>t s. process_user_query libm cars qd = Inr (make_response (detect_intent (query qd)) qd t s)"
  by (simp add: process_user_query_def Let_def) blast

text \<open>
  Claim C9. \<open>detect_intent\<close> returns one of the five intent strings for every input,
  and \<open>process_user_query\<close> returns a response with its five fields, echoing the query:
  always for the four intents that do no float arithmetic, and for emi_calculation
  whenever the C library returns a float between 1.5 and 2 for the one power the
  branch computes (\<open>libm_pow_ok\<close>).
\<close>

theorem process_user_query_total:
  "detect_intent q \<in>
     {''emi_calculation'', ''budget_search'', ''car_comparison'', ''car_search'', ''general_info''}
   \<and> (libm_pow_ok libm \<or> detect_intent (query qd) \<noteq> ''emi_calculation'' \<longrightarrow>
        (\<exists>t s. process_user_query libm cars qd =
           Inr \<lparr>intent = detect_intent (query qd), user_query = query qd,
                tool_output = t, safety_check = s,
                recommended_action =
                  ''Processed '' @ replace_underscores (detect_intent (query qd))
                    @ '' successfully''\<rparr>))"
proof -
  have "\<exists>t s. process_user_query libm cars qd = Inr (make_response (detect_intent (query qd)) qd t s)"
    if "libm_pow_ok libm \<or> detect_intent (query qd) \<noteq> ''emi_calculation''"
  proof (cases "detect_intent (query qd) = ''emi_calculation''")
    case True
    with that have ok: "libm_pow_ok libm" by simp
    from calculate_emi_fixed_returns [OF ok]
    obtain t where t: "calculate_emi libm (or_default (max_budget qd) (Fin 1500000))
        (float_lit (19 / 2)) (Fin 5) = Inr t" by blast
    from apply_safety_rules_returns
    obtain s where s: "apply_safety_rules (emi_amount t) (user_income qd) = Inr s" by blast
    show ?thesis
      unfolding process_user_query_emi [OF True] by (simp only: t s sum.case True) blast
  next
    case False
    then show ?thesis by (rule process_user_query_other)
  qed
  then show ?thesis using detect_intent_cases [of q] by (simp add: make_response_def)
qed

lemma libm_sample_ok: "libm_pow_ok libm_sample"
  by (simp add: libm_pow_ok_def libm_sample_def)

theorem process_user_query_total_witness:
  "libm_pow_ok libm_sample
   \<and> (\<exists>t s. process_user_query libm_sample sample_catalog
          \<lparr>query = ''What is my EMI?'', user_income = Some (Fin 600000),
           max_budget = Some (Fin 800000)\<rparr> =
         Inr \<lparr>intent = ''emi_calculation'', user_query = ''What is my EMI?'',
              tool_output = t, safety_check = s,
              recommended_action = ''Processed emi calculation successfully''\<rparr>)"
proof -
  have i: "detect_intent ''What is my EMI?'' = ''emi_calculation''"
    by (simp add: intent_eval)
  from process_user_query_total [of "''What is my EMI?''" libm_sample
      "\<lparr>query = ''What is my EMI?'', user_income = Some (Fin 600000),
        max_budget = Some (Fin 800000)\<rparr>" sample_catalog]
    libm_sample_ok
  show ?thesis by (simp add: i replace_underscores_def)
qed

subsection \<open>The emi_calculation branch\<close>

text \<open>The instalment with the sample library, step by step.\<close>

lemma sample_pow: "py_pow libm_sample (Fin emi_base) (Fin 60)
    = Inr (Fin (7228320047861593 / 4503599627370496))"
  by (simp add: py_pow_emi_base libm_sample_def)

lemma sample_denominator:
  "py_sub (Fin (7228320047861593 / 4503599627370496)) (Fin 1)
     = Fin (2724720420491097 / 4503599627370496)"
  by (simp add: py_sub_def float_eval)

lemma calculate_emi_sample:
  "calculate_emi libm_sample princ (float_lit (19 / 2)) (Fin 5) =
     (case py_div (py_mul (py_mul princ (Fin monthly_rate_95))
                    (Fin (7228320047861593 / 4503599627370496)))
             (Fin (2724720420491097 / 4503599627370496)) of
        Inl e \<Rightarrow> Inl e
      | Inr emi \<Rightarrow>
          Inr \<lparr>emi_amount = py_round2 emi,
               total_payment = py_round2 (py_mul emi (Fin 60)),
               total_interest = py_round2 (py_sub (py_mul emi (Fin 60)) princ)\<rparr>)"
proof -
  have pw: "py_pow libm_sample (py_add (Fin 1) (Fin monthly_rate_95)) (py_mul (Fin 5) (Fin 12))
      = Inr (Fin (7228320047861593 / 4503599627370496))"
    by (simp only: rate_95_steps sample_pow)
  show ?thesis
    unfolding rate_95_steps(1)
    by (simp only: calculate_emi_steps [OF rate_95_steps(2) rate_95_steps(3) rate_95_steps(4) pw]
        sample_denominator rate_95_steps(5))
qed

lemma calculate_emi_sample_1500000:
  "calculate_emi libm_sample (Fin 1500000) (float_lit (19 / 2)) (Fin 5) =
     Inr \<lparr>emi_amount = Fin (4329710489048187 / 137438953472),
          total_payment = Fin (4059103841180713 / 2147483648),
          total_interest = Fin (837878369180713 / 2147483648)\<rparr>"
proof -
  have 1: "py_mul (Fin 1500000) (Fin monthly_rate_95) = Fin (6528350289919999 / 549755813888)"
    by (simp add: float_eval monthly_rate_95_def)
  have 2: "py_mul (Fin (6528350289919999 / 549755813888)) (Fin (7228320047861593 / 4503599627370496))
      = Fin (5239032017111597 / 274877906944)"
    by (simp add: float_eval)
  have 3: "py_div (Fin (5239032017111597 / 274877906944)) (Fin (2724720420491097 / 4503599627370496))
      = Inr (Fin (135303461220535 / 4294967296))"
    by (simp add: float_eval)
  have 4: "py_round2 (Fin (135303461220535 / 4294967296)) = Fin (4329710489048187 / 137438953472)"
    by (simp add: float_eval)
  have 5: "py_mul (Fin (135303461220535 / 4294967296)) (Fin 60)
      = Fin (2029551918308025 / 1073741824)"
    by (simp add: float_eval)
  have 6: "py_round2 (Fin (2029551918308025 / 1073741824)) = Fin (4059103841180713 / 2147483648)"
    by (simp add: float_eval)
  have 7: "py_sub (Fin (2029551918308025 / 1073741824)) (Fin 1500000)
      = Fin (418939182308025 / 1073741824)"
    by (simp add: py_sub_def float_eval)
  have 8: "py_round2 (Fin (418939182308025 / 1073741824)) = Fin (837878369180713 / 2147483648)"
    by (simp add: float_eval)
  show ?thesis
    by (simp only: calculate_emi_sample 1 2 3 4 5 6 7 8 sum.case)
qed

lemma calculate_emi_sample_0:
  "calculate_emi libm_sample (Fin 0) (float_lit (19 / 2)) (Fin 5) =
     Inr \<lparr>emi_amount = Fin 0, total_payment = Fin 0, total_interest = Fin 0\<rparr>"
proof -
  have 1: "py_mul (Fin 0) (Fin x) = Fin 0" for x by (simp add: to_float_zero)
  have 3: "py_div (Fin 0) (Fin (2724720420491097 / 4503599627370496)) = Inr (Fin 0)"
    by (simp add: to_float_zero)
  have 4: "py_round2 (Fin 0) = Fin 0" by (simp add: rhe_of_int [of 0, simplified] to_float_zero)
  have 7: "py_sub (Fin 0) (Fin 0) = Fin 0" by (simp add: py_sub_def to_float_zero)
  show ?thesis
    by (simp only: calculate_emi_sample 1 3 4 7 sum.case)
qed

text \<open>
  Claim C3, as stated, fails. The claim takes \<open>max_budget\<close> as the principal whenever
  it is provided. The source writes \<open>query_data.max_budget or 1500000\<close>, and a budget
  of \<open>0\<close> is false in Python: the request \<open>{"query": "emi", "max_budget": 0}\<close> gets the
  instalment of 1,500,000 (31502.79), not the instalment of 0 (which is 0.0).
\<close>

theorem emi_principal_zero_budget_counterexample:
  "process_user_query libm_sample sample_catalog
     \<lparr>query = ''emi'', user_income = None, max_budget = Some (Fin 0)\<rparr> =
     Inr \<lparr>intent = ''emi_calculation'', user_query = ''emi'',
          tool_output =
            EmiOut \<lparr>emi_amount = Fin (4329710489048187 / 137438953472),
                    total_payment = Fin (4059103841180713 / 2147483648),
                    total_interest = Fin (837878369180713 / 2147483648)\<rparr>,
          safety_check = \<lparr>approved = True, message = MsgIncomeNotProvided\<rparr>,
          recommended_action = ''Processed emi calculation successfully''\<rparr>
   \<and> calculate_emi libm_sample
         (claimed_emi_principal \<lparr>query = ''emi'', user_income = None, max_budget = Some (Fin 0)\<rparr>)
         (float_lit (19 / 2)) (Fin 5) =
       Inr \<lparr>emi_amount = Fin 0, total_payment = Fin 0, total_interest = Fin 0\<rparr>
   \<and> EmiOut \<lparr>emi_amount = Fin (4329710489048187 / 137438953472),
              total_payment = Fin (4059103841180713 / 2147483648),
              total_interest = Fin (837878369180713 / 2147483648)\<rparr>
       \<noteq> EmiOut \<lparr>emi_amount = Fin 0, total_payment = Fin 0, total_interest = Fin 0\<rparr>"
proof -
  have i: "detect_intent (query \<lparr>query = ''emi'', user_income = None, max_budget = Some (Fin 0)\<rparr>)
      = ''emi_calculation''"
    by (simp add: intent_eval)
  have p: "or_default (max_budget \<lparr>query = ''emi'', user_income = None, max_budget = Some (Fin 0)\<rparr>)
      (Fin 1500000) = Fin 1500000"
    by (simp add: or_default_def py_truthy_def)
  have c: "claimed_emi_principal \<lparr>query = ''emi'', user_income = None, max_budget = Some (Fin 0)\<rparr>
      = Fin 0"
    by (simp add: claimed_emi_principal_def)
  have s: "apply_safety_rules e None = Inr \<lparr>approved = True, message = MsgIncomeNotProvided\<rparr>" for e
    by (simp add: apply_safety_rules_def)
  have "process_user_query libm_sample sample_catalog
     \<lparr>query = ''emi'', user_income = None, max_budget = Some (Fin 0)\<rparr> =
     Inr (make_response ''emi_calculation''
           \<lparr>query = ''emi'', user_income = None, max_budget = Some (Fin 0)\<rparr>
           (EmiOut \<lparr>emi_amount = Fin (4329710489048187 / 137438953472),
                    total_payment = Fin (4059103841180713 / 2147483648),
                    total_interest = Fin (837878369180713 / 2147483648)\<rparr>)
           \<lparr>approved = True, message = MsgIncomeNotProvided\<rparr>)"
    unfolding process_user_query_emi [OF i] p calculate_emi_sample_1500000
    by (simp add: s)
  then show ?thesis
    unfolding c calculate_emi_sample_0 by (simp add: make_response_def replace_underscores_def)
qed

text \<open>
  Claim C3, amended. For every request classified as emi_calculation,
  \<open>process_user_query\<close> computes the EMI at rate 9.5 over 5 years, with principal
  \<open>max_budget\<close> if it is provided and not zero, and 1,500,000 otherwise, and passes
  \<open>emi_amount\<close> and \<open>user_income\<close> to \<open>apply_safety_rules\<close>. In particular, with a C
  library that satisfies \<open>libm_pow_ok\<close>, the request
  \<open>{"query": "emi for car", "user_income": 600000}\<close> yields intent emi_calculation, the
  EMI of principal 1,500,000 at 9.5 over 5 years, and \<open>approved == false\<close>.
\<close>

theorem emi_branch_principal:
  "(detect_intent (query qd) = ''emi_calculation'' \<longrightarrow>
      process_user_query libm cars qd =
        (case calculate_emi libm
                (case max_budget qd of
                   None \<Rightarrow> Fin 1500000
                 | Some b \<Rightarrow> if b = Fin 0 then Fin 1500000 else b)
                (float_lit (19 / 2)) (Fin 5) of
           Inl e \<Rightarrow> Inl e
         | Inr t \<Rightarrow>
             (case apply_safety_rules (emi_amount t) (user_income qd) of
                Inl e \<Rightarrow> Inl e
              | Inr s \<Rightarrow> Inr (make_response ''emi_calculation'' qd (EmiOut t) s))))
   \<and> (libm_pow_ok libm \<longrightarrow>
        (\<exists>t s. calculate_emi libm (Fin 1500000) (float_lit (19 / 2)) (Fin 5) = Inr t
           \<and> process_user_query libm cars
                \<lparr>query = ''emi for car'', user_income = Some (Fin 600000), max_budget = None\<rparr> =
              Inr \<lparr>intent = ''emi_calculation'', user_query = ''emi for car'',
                   tool_output = EmiOut t, safety_check = s,
                   recommended_action = ''Processed emi calculation successfully''\<rparr>
           \<and> \<not> approved s))"
proof -
  have od: "or_default (max_budget qd) (Fin 1500000) =
      (case max_budget qd of None \<Rightarrow> Fin 1500000
       | Some b \<Rightarrow> if b = Fin 0 then Fin 1500000 else b)"
    by (simp add: or_default_def py_truthy_def split: option.splits)
  have first: "detect_intent (query qd) = ''emi_calculation'' \<longrightarrow>
      process_user_query libm cars qd =
        (case calculate_emi libm
                (case max_budget qd of
                   None \<Rightarrow> Fin 1500000
                 | Some b \<Rightarrow> if b = Fin 0 then Fin 1500000 else b)
                (float_lit (19 / 2)) (Fin 5) of
           Inl e \<Rightarrow> Inl e
         | Inr t \<Rightarrow>
             (case apply_safety_rules (emi_amount t) (user_income qd) of
                Inl e \<Rightarrow> Inl e
              | Inr s \<Rightarrow> Inr (make_response ''emi_calculation'' qd (EmiOut t) s)))"
    using process_user_query_emi [of qd libm cars] by (simp only: od) blast
  have second: "\<exists>t s. calculate_emi libm (Fin 1500000) (float_lit (19 / 2)) (Fin 5) = Inr t
           \<and> process_user_query libm cars
                \<lparr>query = ''emi for car'', user_income = Some (Fin 600000), max_budget = None\<rparr> =
              Inr \<lparr>intent = ''emi_calculation'', user_query = ''emi for car'',
                   tool_output = EmiOut t, safety_check = s,
                   recommended_action = ''Processed emi calculation successfully''\<rparr>
           \<and> \<not> approved s" if ok: "libm_pow_ok libm"
  proof -
    let ?q = "\<lparr>query = ''emi for car'', user_income = Some (Fin 600000), max_budget = None\<rparr>"
    have i: "detect_intent (query ?q) = ''emi_calculation''" by (simp add: intent_eval)
    have p: "or_default (max_budget ?q) (Fin 1500000) = Fin 1500000"
      by (simp add: or_default_def)
    from calculate_emi_default_large [OF ok] obtain t a where
      t: "calculate_emi libm (Fin 1500000) (float_lit (19 / 2)) (Fin 5) = Inr t"
      and a: "emi_amount t = Fin a" "16384 \<le> a" by blast
    have s: "apply_safety_rules (emi_amount t) (user_income ?q)
        = Inr \<lparr>approved = False, message = MsgRiskyEMI (Fin a) (Fin 15000)\<rparr>"
      using a(2)
      by (simp add: apply_safety_rules_def a(1) monthly_income_50000 max_emi_15000 Let_def
          del: py_div.simps py_mul.simps)
    have "process_user_query libm cars ?q =
        Inr (make_response ''emi_calculation'' ?q (EmiOut t)
              \<lparr>approved = False, message = MsgRiskyEMI (Fin a) (Fin 15000)\<rparr>)"
      unfolding process_user_query_emi [OF i] p by (simp only: t s sum.case)
    with t show ?thesis by (simp add: make_response_def replace_underscores_def)
  qed
  from first second show ?thesis by blast
qed

theorem emi_branch_principal_witness:
  "detect_intent (query \<lparr>query = ''car loan'', user_income = None, max_budget = Some (Fin 800000)\<rparr>)
     = ''emi_calculation''
   \<and> libm_pow_ok libm_sample
   \<and> process_user_query libm_sample sample_catalog
        \<lparr>query = ''car loan'', user_income = None, max_budget = Some (Fin 800000)\<rparr> =
       (case calculate_emi libm_sample (Fin 800000) (float_lit (19 / 2)) (Fin 5) of
          Inl e \<Rightarrow> Inl e
        | Inr t \<Rightarrow>
            Inr (make_response ''emi_calculation''
                  \<lparr>query = ''car loan'', user_income = None, max_budget = Some (Fin 800000)\<rparr>
                  (EmiOut t) \<lparr>approved = True, message = MsgIncomeNotProvided\<rparr>))
   \<and> (\<exists>t s. calculate_emi libm_sample (Fin 1500000) (float_lit (19 / 2)) (Fin 5) = Inr t
          \<and> process_user_query libm_sample sample_catalog
               \<lparr>query = ''emi for car'', user_income = Some (Fin 600000), max_budget = None\<rparr> =
             Inr \<lparr>intent = ''emi_calculation'', user_query = ''emi for car'',
                  tool_output = EmiOut t, safety_check = s,
                  recommended_action = ''Processed emi calculation successfully''\<rparr>
          \<and> \<not> approved s)"
proof -
  let ?q = "\<lparr>query = ''car loan'', user_income = None, max_budget = Some (Fin 800000)\<rparr>"
  have i: "detect_intent (query ?q) = ''emi_calculation''" by (simp add: intent_eval)
  have s: "apply_safety_rules e None = Inr \<lparr>approved = True, message = MsgIncomeNotProvided\<rparr>" for e
    by (simp add: apply_safety_rules_def)
  from emi_branch_principal [of ?q libm_sample sample_catalog] i libm_sample_ok
  show ?thesis by (simp add: s cong: sum.case_cong)
qed

subsection \<open>The car_search branch\<close>

lemma process_user_query_find_alto:
  "process_user_query libm cars \<lparr>query = ''find alto'', user_income = ui, max_budget = mb\<rparr> =
     Inr \<lparr>intent = ''car_search'', user_query = ''find alto'',
          tool_output = CarOut (get_car_by_name cars ''find alto''),
          safety_check = \<lparr>approved = True, message = MsgCarFound\<rparr>,
          recommended_action = ''Processed car search successfully''\<rparr>"
proof -
  have i: "detect_intent ''find alto'' = ''car_search''" by (simp add: intent_eval)
  show ?thesis
    by (simp add: process_user_query_def i make_response_def replace_underscores_def)
qed

text \<open>
  Claim C7, as stated, fails. The car_search branch looks up the whole query string:
  \<open>find alto\<close> is not a substring of \<open>maruti alto\<close>, so on a catalog that contains the
  record named \<open>Maruti Alto\<close> priced 450000 the request \<open>{"query": "find alto"}\<close> has
  intent car_search and \<open>tool_output\<close> \<open>None\<close>, not that record.
\<close>

theorem find_alto_counterexample:
  "maruti_alto \<in> set sample_catalog
   \<and> name maruti_alto = ''Maruti Alto'' \<and> price maruti_alto = Fin 450000
   \<and> process_user_query libm_sample sample_catalog
        \<lparr>query = ''find alto'', user_income = None, max_budget = None\<rparr> =
       Inr \<lparr>intent = ''car_search'', user_query = ''find alto'',
            tool_output = CarOut None,
            safety_check = \<lparr>approved = True, message = MsgCarFound\<rparr>,
            recommended_action = ''Processed car search successfully''\<rparr>
   \<and> CarOut None \<noteq> CarOut (Some maruti_alto)"
proof -
  have "get_car_by_name sample_catalog ''find alto'' = None"
    by (simp add: sample_defs lower_def lower_char_def py_in_eval)
  then show ?thesis
    by (simp add: process_user_query_find_alto) (simp add: sample_defs)
qed

text \<open>
  Claim C7, amended. On every catalog the request \<open>{"query": "find alto"}\<close> returns
  intent car_search and, as \<open>tool_output\<close>, the result of \<open>get_car_by_name\<close> on the
  whole query string \<open>find alto\<close>. That result is never a record named
  \<open>Maruti Alto\<close>, and it is \<open>None\<close> when no lower-cased name contains \<open>find alto\<close>.
\<close>

theorem car_search_whole_query:
  "process_user_query libm cars \<lparr>query = ''find alto'', user_income = ui, max_budget = mb\<rparr> =
     Inr \<lparr>intent = ''car_search'', user_query = ''find alto'',
          tool_output = CarOut (get_car_by_name cars ''find alto''),
          safety_check = \<lparr>approved = True, message = MsgCarFound\<rparr>,
          recommended_action = ''Processed car search successfully''\<rparr>
   \<and> (\<forall>c\<in>set cars. name c = ''Maruti Alto'' \<longrightarrow> get_car_by_name cars ''find alto'' \<noteq> Some c)
   \<and> ((\<forall>c\<in>set cars. \<not> sublist ''find alto'' (lower (name c)))
        \<longrightarrow> get_car_by_name cars ''find alto'' = None)"
proof -
  have l: "lower ''find alto'' = ''find alto''" by (simp add: lower_def lower_char_def)
  have n: "\<not> py_in ''find alto'' (lower ''Maruti Alto'')"
    by (simp add: lower_def lower_char_def py_in_eval)
  have a: "get_car_by_name cars ''find alto'' \<noteq> Some c" if "name c = ''Maruti Alto''" for c
  proof
    assume "get_car_by_name cars ''find alto'' = Some c"
    from get_car_by_name_Some [OF this] have "py_in (lower ''find alto'') (lower (name c))"
      by blast
    with n that l show False by simp
  qed
  have b: "(\<forall>c\<in>set cars. \<not> sublist ''find alto'' (lower (name c)))
        \<longrightarrow> get_car_by_name cars ''find alto'' = None"
    using get_car_by_name_None [of cars "''find alto''"] by (simp add: l py_in_def)
  from a b show ?thesis by (simp add: process_user_query_find_alto)
qed

theorem car_search_whole_query_witness:
  "maruti_alto \<in> set sample_catalog \<and> name maruti_alto = ''Maruti Alto''
   \<and> get_car_by_name sample_catalog ''find alto'' = None
   \<and> get_car_by_name sample_catalog ''find alto'' \<noteq> Some maruti_alto"
proof -
  have m: "maruti_alto \<in> set sample_catalog" "name maruti_alto = ''Maruti Alto''"
    by (simp_all add: sample_defs)
  have h: "\<forall>c\<in>set sample_catalog. \<not> sublist ''find alto'' (lower (name c))"
    by (simp add: sample_defs lower_def lower_char_def py_in_eval [unfolded py_in_def])
  from car_search_whole_query [of libm_sample sample_catalog None None] m h
  show ?thesis by blast
qed

subsection \<open>Rounding errors\<close>

lemma fl_round_zero: "fl_round 0 = 0"
  by (simp add: fl_round_def)

text \<open>
  One rounding has a relative error of at most \<open>2^-53\<close> in the normal range; below
  it the absolute error is far less than the \<open>2^-64\<close> used here.
\<close>

lemma fl_round_rel_error: "\<bar>fl_round x - x\<bar> \<le> \<bar>x\<bar> / 2 ^ 53 + 1 / 2 ^ 64"
proof (cases "x = 0")
  case True
  then show ?thesis by (simp add: fl_round_zero)
next
  case False
  then have pos: "0 < \<bar>x\<bar>" by simp
  have half: "pow2 (k - 52) / 2 = pow2 k / 2 ^ 53" for k
  proof -
    have "pow2 k = pow2 (52 + (k - 52))" by simp
    also have "\<dots> = pow2 52 * pow2 (k - 52)" by (rule pow2_add)
    finally show ?thesis by (simp add: pow2_def)
  qed
  show ?thesis
  proof (cases "- 1022 \<le> ilog2 \<bar>x\<bar>")
    case True
    then have "quantum x / 2 = pow2 (ilog2 \<bar>x\<bar>) / 2 ^ 53"
      by (simp add: quantum_def max_def half)
    also have "\<dots> \<le> \<bar>x\<bar> / 2 ^ 53"
      using ilog2_bounds [OF pos] by (simp add: divide_right_mono)
    finally show ?thesis using fl_round_error [of x] by simp
  next
    case False
    then have "quantum x = pow2 (- 1022 - 52)"
      by (simp add: quantum_def max_def)
    then have "quantum x / 2 = pow2 (- 1022) / 2 ^ 53"
      by (simp only: half)
    also have "\<dots> \<le> 1 / 2 ^ 64" by (simp add: pow2_def)
    finally have "quantum x / 2 \<le> 1 / 2 ^ 64" .
    moreover have "0 \<le> \<bar>x\<bar> / 2 ^ 53" by simp
    ultimately show ?thesis using fl_round_error [of x] by linarith
  qed
qed

lemma to_float_Fin: "to_float x = Fin y \<Longrightarrow> y = fl_round x"
  by (simp add: to_float_def Let_def split: if_splits)

lemma to_float_error:
  "to_float x = Fin y \<Longrightarrow> \<bar>y - x\<bar> \<le> \<bar>x\<bar> / 2 ^ 53 + 1 / 2 ^ 64"
  using fl_round_rel_error [of x] to_float_Fin [of x y] by simp

lemma py_mul_Fin:
  assumes "py_mul v w = Fin z"
  obtains x y where "v = Fin x" "w = Fin y" "\<bar>z - x * y\<bar> \<le> \<bar>x * y\<bar> / 2 ^ 53 + 1 / 2 ^ 64"
proof -
  from assms obtain x y where xy: "v = Fin x" "w = Fin y"
    by (cases v; cases w) (simp_all add: inf_of_sign_def split: if_splits)
  with assms have "to_float (x * y) = Fin z" by simp
  from to_float_error [OF this] xy show ?thesis by (rule_tac that) simp_all
qed

lemma py_sub_Fin:
  assumes "py_sub v w = Fin z"
  obtains x y where "v = Fin x" "w = Fin y" "\<bar>z - (x - y)\<bar> \<le> \<bar>x - y\<bar> / 2 ^ 53 + 1 / 2 ^ 64"
proof -
  from assms obtain x y where xy: "v = Fin x" "w = Fin y"
    by (cases v; cases w) (simp_all add: py_sub_def)
  with assms have "to_float (x - y) = Fin z" by (simp add: py_sub_def)
  from to_float_error [OF this] xy show ?thesis by (rule_tac that) simp_all
qed

lemma py_round2_Fin:
  assumes "py_round2 v = Fin y"
  obtains x where "v = Fin x"
    "\<bar>y - x\<bar> \<le> 1 / 200 + (\<bar>x\<bar> + 1 / 200) / 2 ^ 53 + 1 / 2 ^ 64"
proof -
  from assms obtain x where x: "v = Fin x" by (cases v) simp_all
  define r :: rat where "r = of_int (round_half_even (x * 100)) / 100"
  from assms x have "to_float r = Fin y" by (simp add: r_def)
  from to_float_error [OF this] have 1: "\<bar>y - r\<bar> \<le> \<bar>r\<bar> / 2 ^ 53 + 1 / 2 ^ 64" .
  have "r - x = (of_int (round_half_even (x * 100)) - x * 100) / 100" by (simp add: r_def field_simps)
  then have "\<bar>r - x\<bar> = \<bar>of_int (round_half_even (x * 100)) - x * 100\<bar> / 100"
    by (simp only: abs_divide)
  also have "\<dots> \<le> (1 / 2) / 100" using rhe_error [of "x * 100"] by (intro divide_right_mono) simp_all
  finally have 2: "\<bar>r - x\<bar> \<le> 1 / 200" by simp
  then have 3: "\<bar>r\<bar> \<le> \<bar>x\<bar> + 1 / 200" by linarith
  then have "\<bar>r\<bar> / 2 ^ 53 \<le> (\<bar>x\<bar> + 1 / 200) / 2 ^ 53" by (intro divide_right_mono) simp_all
  with 1 2 have "\<bar>y - x\<bar> \<le> 1 / 200 + (\<bar>x\<bar> + 1 / 200) / 2 ^ 53 + 1 / 2 ^ 64" by linarith
  with x show ?thesis by (rule that)
qed

subsection \<open>The three amounts of an EMI result\<close>

lemma calculate_emi_result:
  assumes "calculate_emi libm princ annual_rate tenure_years = Inr t"
  shows "\<exists>emi. t = \<lparr>emi_amount = py_round2 emi,
                     total_payment = py_round2 (py_mul emi (py_mul tenure_years (Fin 12))),
                     total_interest =
                       py_round2 (py_sub (py_mul emi (py_mul tenure_years (Fin 12))) princ)\<rparr>"
  using assms unfolding calculate_emi_def Let_def
  by (auto split: sum.splits simp del: py_div.simps py_mul.simps py_round2.simps)

lemma payment_bound:
  fixes a e n T tp :: rat
  assumes h1: "\<bar>a - e\<bar> \<le> 1 / 200 + (\<bar>e\<bar> + 1 / 200) / 2 ^ 53 + 1 / 2 ^ 64"
    and h2: "\<bar>T - e * n\<bar> \<le> \<bar>e * n\<bar> / 2 ^ 53 + 1 / 2 ^ 64"
    and h3: "\<bar>tp - T\<bar> \<le> 1 / 200 + (\<bar>T\<bar> + 1 / 200) / 2 ^ 53 + 1 / 2 ^ 64"
  shows "\<bar>tp - a * n\<bar> \<le> (\<bar>n\<bar> + 1) / 200 + (\<bar>a\<bar> * \<bar>n\<bar> + \<bar>n\<bar> + 1) / 2 ^ 50"
proof -
  define N where "N = \<bar>n\<bar>"
  define EN where "EN = \<bar>e\<bar> * \<bar>n\<bar>"
  define AN where "AN = \<bar>a\<bar> * \<bar>n\<bar>"
  define DN where "DN = \<bar>a - e\<bar> * \<bar>n\<bar>"
  have N: "0 \<le> N" by (simp add: N_def)
  have EN: "0 \<le> EN" and AN: "0 \<le> AN" by (simp_all add: EN_def AN_def)
  have en: "\<bar>e * n\<bar> = EN" by (simp add: EN_def abs_mult)
  have "DN \<le> (1 / 200 + (\<bar>e\<bar> + 1 / 200) / 2 ^ 53 + 1 / 2 ^ 64) * \<bar>n\<bar>"
    unfolding DN_def using h1 by (intro mult_right_mono) simp_all
  also have "\<dots> = N / 200 + EN / 2 ^ 53 + N / 200 / 2 ^ 53 + N / 2 ^ 64"
    by (simp add: N_def EN_def field_simps)
  finally have d: "DN \<le> N / 200 + EN / 2 ^ 53 + N / 200 / 2 ^ 53 + N / 2 ^ 64" .
  have "\<bar>e\<bar> \<le> \<bar>a\<bar> + \<bar>a - e\<bar>" by linarith
  then have "\<bar>e\<bar> * \<bar>n\<bar> \<le> (\<bar>a\<bar> + \<bar>a - e\<bar>) * \<bar>n\<bar>" by (intro mult_right_mono) simp_all
  then have e: "EN \<le> AN + DN" by (simp add: EN_def AN_def DN_def algebra_simps)
  have "e * n - a * n = (e - a) * n" by (simp add: algebra_simps)
  then have "\<bar>e * n - a * n\<bar> = \<bar>a - e\<bar> * \<bar>n\<bar>" by (simp add: abs_mult abs_minus_commute)
  then have k: "\<bar>e * n - a * n\<bar> = DN" by (simp add: DN_def)
  have t: "\<bar>T\<bar> \<le> EN + EN / 2 ^ 53 + 1 / 2 ^ 64" using h2 en by (simp add: add_divide_distrib)
  have "\<bar>tp - a * n\<bar> \<le> \<bar>tp - T\<bar> + \<bar>T - e * n\<bar> + \<bar>e * n - a * n\<bar>" by linarith
  also have "\<dots> \<le> (1 / 200 + (\<bar>T\<bar> + 1 / 200) / 2 ^ 53 + 1 / 2 ^ 64) + (EN / 2 ^ 53 + 1 / 2 ^ 64) + DN"
    using h3 h2 unfolding en k by (simp add: add_divide_distrib)
  also have "\<dots> \<le> (N + 1) / 200 + (AN + N + 1) / 2 ^ 50"
    using d e t N EN AN by (simp add: add_divide_distrib)
  finally show ?thesis by (simp only: N_def AN_def)
qed

lemma interest_bound:
  fixes T tp I ti P :: rat
  assumes h3: "\<bar>tp - T\<bar> \<le> 1 / 200 + (\<bar>T\<bar> + 1 / 200) / 2 ^ 53 + 1 / 2 ^ 64"
    and h4: "\<bar>I - (T - P)\<bar> \<le> \<bar>T - P\<bar> / 2 ^ 53 + 1 / 2 ^ 64"
    and h5: "\<bar>ti - I\<bar> \<le> 1 / 200 + (\<bar>I\<bar> + 1 / 200) / 2 ^ 53 + 1 / 2 ^ 64"
  shows "\<bar>ti - (tp - P)\<bar> \<le> 1 / 100 + (\<bar>tp\<bar> + \<bar>P\<bar> + 1) / 2 ^ 50"
proof -
  define D where "D = \<bar>T - P\<bar>"
  define TT where "TT = \<bar>T\<bar>"
  define II where "II = \<bar>I\<bar>"
  define x1 where "x1 = \<bar>ti - I\<bar>"
  define x2 where "x2 = \<bar>I - (T - P)\<bar>"
  define x3 where "x3 = \<bar>tp - T\<bar>"
  define TP where "TP = \<bar>tp\<bar>"
  define PP where "PP = \<bar>P\<bar>"
  have 1: "D \<le> TT + PP" unfolding D_def TT_def PP_def by linarith
  have 2: "TT \<le> TP + x3" unfolding TT_def TP_def x3_def by linarith
  have 3: "II \<le> D + x2" unfolding II_def D_def x2_def by linarith
  have 4: "\<bar>ti - (tp - P)\<bar> \<le> x1 + x2 + x3" unfolding x1_def x2_def x3_def by linarith
  have 5: "x1 \<le> 1 / 200 + (II + 1 / 200) / 2 ^ 53 + 1 / 2 ^ 64"
    using h5 by (simp only: II_def x1_def)
  have 6: "x2 \<le> D / 2 ^ 53 + 1 / 2 ^ 64" using h4 by (simp only: D_def x2_def)
  have 7: "x3 \<le> 1 / 200 + (TT + 1 / 200) / 2 ^ 53 + 1 / 2 ^ 64"
    using h3 by (simp only: TT_def x3_def)
  have 8: "0 \<le> TP" "0 \<le> PP" by (simp_all add: TP_def PP_def)
  have "x1 + x2 + x3 \<le> 1 / 100 + (TP + PP + 1) / 2 ^ 50"
    using 1 2 3 5 6 7 8 by (simp add: add_divide_distrib)
  with 4 show ?thesis unfolding TP_def PP_def by linarith
qed

lemma calculate_emi_pow_error:
  assumes "py_div annual_rate (Fin 12) = Inr m"
    and "py_div m (Fin 100) = Inr r"
    and "\<not> py_eq r (Fin 0)"
    and "py_pow libm (py_add (Fin 1) r) (py_mul tenure_years (Fin 12)) = Inl err"
  shows "calculate_emi libm princ annual_rate tenure_years = Inl err"
  unfolding calculate_emi_def emi_formula_def Let_def
  by (simp only: assms sum.case if_False)

lemma calculate_emi_sample_overflow:
  "calculate_emi libm_sample (Fin 1000) (Fin 1200) (Fin 100) = Inl OverflowError"
proof -
  have m: "py_div (Fin 1200) (Fin 12) = Inr (Fin 100)" by (simp add: float_eval)
  have r: "py_div (Fin 100) (Fin 100) = Inr (Fin 1)" by (simp add: float_eval)
  have nz: "\<not> py_eq (Fin 1) (Fin 0)" by (simp add: py_eq_def)
  have b: "py_add (Fin 1) (Fin 1) = Fin 2" by (simp add: float_eval)
  have n: "py_mul (Fin 100) (Fin 12) = Fin 1200" by (simp add: float_eval)
  have "libm_sample 2 1200 = Inl OverflowError"
    by (simp add: libm_sample_def emi_base_def is_integer_def pow2_def)
  then have p: "py_pow libm_sample (py_add (Fin 1) (Fin 1)) (py_mul (Fin 100) (Fin 12))
      = Inl OverflowError"
    unfolding b n by (simp add: py_pow_def is_integer_def is_odd_integer_def)
  show ?thesis by (rule calculate_emi_pow_error [OF m r nz p])
qed

text \<open>
  Claim C1, as stated, fails. For principal 1,500,000, rate 9.5 and five years the
  call returns \<open>emi_amount\<close> 31502.79 and \<open>total_payment\<close> 1890167.52, while
  \<open>emi_amount * 60\<close> is 1890167.40: the two differ by 0.12, more than a unit of the
  second decimal, because \<open>total_payment\<close> is computed from the unrounded instalment.
  And for principal 1000, rate 1200 and a hundred years the call returns no result:
  the power \<open>2.0 ** 1200.0\<close> raises \<open>OverflowError\<close>.
\<close>

theorem emi_totals_counterexample:
  "calculate_emi libm_sample (Fin 1500000) (float_lit (19 / 2)) (Fin 5) =
     Inr \<lparr>emi_amount = Fin (4329710489048187 / 137438953472),
          total_payment = Fin (4059103841180713 / 2147483648),
          total_interest = Fin (837878369180713 / 2147483648)\<rparr>
   \<and> 1 / 100 < \<bar>4059103841180713 / 2147483648 - 4329710489048187 / 137438953472 * 60 :: rat\<bar>
   \<and> calculate_emi libm_sample (Fin 1000) (Fin 1200) (Fin 100) = Inl OverflowError"
  by (simp add: calculate_emi_sample_1500000 calculate_emi_sample_overflow)

text \<open>The amounts of a result are close to each other when they are finite.\<close>

lemma emi_amounts_bounds:
  assumes "calculate_emi libm princ annual_rate tenure_years = Inr t"
    and "emi_amount t = Fin a" and "total_payment t = Fin tp" and "total_interest t = Fin ti"
  shows "\<exists>n P. py_mul tenure_years (Fin 12) = Fin n \<and> princ = Fin P
     \<and> \<bar>tp - a * n\<bar> \<le> (\<bar>n\<bar> + 1) / 200 + (\<bar>a\<bar> * \<bar>n\<bar> + \<bar>n\<bar> + 1) / 2 ^ 50
     \<and> \<bar>ti - (tp - P)\<bar> \<le> 1 / 100 + (\<bar>tp\<bar> + \<bar>P\<bar> + 1) / 2 ^ 50"
proof -
  let ?tm = "py_mul tenure_years (Fin 12)"
  from calculate_emi_result [OF assms(1)] obtain emi where
    t: "t = \<lparr>emi_amount = py_round2 emi,
              total_payment = py_round2 (py_mul emi ?tm),
              total_interest = py_round2 (py_sub (py_mul emi ?tm) princ)\<rparr>" by blast
  from assms(2) have "py_round2 emi = Fin a" by (simp add: t)
  then obtain e where e: "emi = Fin e"
    and h1: "\<bar>a - e\<bar> \<le> 1 / 200 + (\<bar>e\<bar> + 1 / 200) / 2 ^ 53 + 1 / 2 ^ 64"
    by (rule py_round2_Fin)
  from assms(3) have "py_round2 (py_mul (Fin e) ?tm) = Fin tp" by (simp add: t e)
  then obtain T where T: "py_mul (Fin e) ?tm = Fin T"
    and h3: "\<bar>tp - T\<bar> \<le> 1 / 200 + (\<bar>T\<bar> + 1 / 200) / 2 ^ 53 + 1 / 2 ^ 64"
    by (rule py_round2_Fin)
  from T obtain e' n where "Fin e = Fin e'" and n: "?tm = Fin n"
    and "\<bar>T - e' * n\<bar> \<le> \<bar>e' * n\<bar> / 2 ^ 53 + 1 / 2 ^ 64"
    by (rule py_mul_Fin)
  then have h2: "\<bar>T - e * n\<bar> \<le> \<bar>e * n\<bar> / 2 ^ 53 + 1 / 2 ^ 64" by simp
  from assms(4) have "py_round2 (py_sub (Fin T) princ) = Fin ti" by (simp add: t e T)
  then obtain I where I: "py_sub (Fin T) princ = Fin I"
    and h5: "\<bar>ti - I\<bar> \<le> 1 / 200 + (\<bar>I\<bar> + 1 / 200) / 2 ^ 53 + 1 / 2 ^ 64"
    by (rule py_round2_Fin)
  from I obtain T' P where "Fin T = Fin T'" and P: "princ = Fin P"
    and "\<bar>I - (T' - P)\<bar> \<le> \<bar>T' - P\<bar> / 2 ^ 53 + 1 / 2 ^ 64"
    by (rule py_sub_Fin)
  then have h4: "\<bar>I - (T - P)\<bar> \<le> \<bar>T - P\<bar> / 2 ^ 53 + 1 / 2 ^ 64" by simp
  from payment_bound [OF h1 h2 h3] interest_bound [OF h3 h4 h5] n P
  show ?thesis by blast
qed

text \<open>When \<open>calculate_emi\<close> returns a result at all.\<close>

lemma py_div_returns_iff: "(\<exists>z. py_div a b = Inr z) \<longleftrightarrow> b \<noteq> Fin 0"
  by (cases a; cases b) auto

lemma calculate_emi_zero_rate:
  assumes "py_div annual_rate (Fin 12) = Inr m"
    and "py_div m (Fin 100) = Inr r"
    and "py_eq r (Fin 0)"
  shows "calculate_emi libm princ annual_rate tenure_years =
     (case py_div princ (py_mul tenure_years (Fin 12)) of
        Inl e \<Rightarrow> Inl e
      | Inr emi \<Rightarrow>
          Inr \<lparr>emi_amount = py_round2 emi,
               total_payment = py_round2 (py_mul emi (py_mul tenure_years (Fin 12))),
               total_interest =
                 py_round2 (py_sub (py_mul emi (py_mul tenure_years (Fin 12))) princ)\<rparr>)"
  unfolding calculate_emi_def Let_def
  by (simp only: assms sum.case if_True)

lemma calculate_emi_returns_iff:
  "(\<exists>t. calculate_emi libm princ annual_rate tenure_years = Inr t) \<longleftrightarrow>
   (\<exists>m r. py_div annual_rate (Fin 12) = Inr m \<and> py_div m (Fin 100) = Inr r
      \<and> (if py_eq r (Fin 0) then py_mul tenure_years (Fin 12) \<noteq> Fin 0
          else \<exists>p. py_pow libm (py_add (Fin 1) r) (py_mul tenure_years (Fin 12)) = Inr p
                 \<and> py_sub p (Fin 1) \<noteq> Fin 0))"
proof -
  let ?tm = "py_mul tenure_years (Fin 12)"
  obtain m where m: "py_div annual_rate (Fin 12) = Inr m"
    using py_div_nonzero [of 12 annual_rate] by auto
  obtain r where r: "py_div m (Fin 100) = Inr r"
    using py_div_nonzero [of 100 m] by auto
  have "(\<exists>t. calculate_emi libm princ annual_rate tenure_years = Inr t) \<longleftrightarrow>
      (if py_eq r (Fin 0) then ?tm \<noteq> Fin 0
       else \<exists>p. py_pow libm (py_add (Fin 1) r) ?tm = Inr p \<and> py_sub p (Fin 1) \<noteq> Fin 0)"
  proof (cases "py_eq r (Fin 0)")
    case True
    have "(\<exists>t. calculate_emi libm princ annual_rate tenure_years = Inr t)
        \<longleftrightarrow> (\<exists>z. py_div princ ?tm = Inr z)"
      unfolding calculate_emi_zero_rate [OF m r True] by (auto split: sum.splits)
    with True show ?thesis by (simp only: py_div_returns_iff if_True)
  next
    case False
    show ?thesis
    proof (cases "py_pow libm (py_add (Fin 1) r) ?tm")
      case (Inl err)
      from calculate_emi_pow_error [OF m r False Inl]
      show ?thesis using False Inl by simp
    next
      case (Inr p)
      have "(\<exists>t. calculate_emi libm princ annual_rate tenure_years = Inr t)
          \<longleftrightarrow> (\<exists>z. py_div (py_mul (py_mul princ r) p) (py_sub p (Fin 1)) = Inr z)"
        unfolding calculate_emi_steps [OF m r False Inr] by (auto split: sum.splits)
      with False Inr show ?thesis by (simp only: py_div_returns_iff if_False) simp
    qed
  qed
  with m r show ?thesis by (simp del: py_div.simps)
qed

text \<open>
  A positive float is at least the smallest subnormal \<open>2^-1074\<close>, so a positive tenure
  in years gives a tenure in months that is not zero.
\<close>

lemma float_pos_ge:
  assumes "0 < T" and "fl_round T = T"
  shows "pow2 (- 1074) \<le> T"
proof -
  let ?k = "round_half_even (T / quantum T)"
  have T: "T = of_int ?k * quantum T" using assms(2) fl_round_quantum [of T] by simp
  have q: "0 < quantum T" by (rule quantum_pos)
  have "0 < (of_int ?k :: rat)"
    using assms(1) q T by (metis zero_less_mult_pos2)
  then have "1 \<le> ?k" by simp
  then have "(1 :: rat) \<le> of_int ?k" by (metis of_int_1_le_iff)
  then have "quantum T \<le> of_int ?k * quantum T" using q by simp
  moreover have "pow2 (- 1074) \<le> quantum T"
    unfolding quantum_def by (rule pow2_mono) simp
  ultimately show ?thesis using T by simp
qed

lemma tenure_months_nonzero:
  assumes "0 < T" and "to_float T = Fin T"
  shows "py_mul (Fin T) (Fin 12) \<noteq> Fin 0"
proof -
  from assms(2) have "fl_round T = T" by (metis to_float_Fin)
  with assms(1) have "pow2 (- 1074) \<le> T" by (rule float_pos_ge)
  with assms(1) have "pow2 (- 1074) \<le> T * 12" by simp
  then have "pow2 (- 1074) \<le> fl_round (T * 12)" by (intro fl_round_ge_pow2) simp_all
  then have "0 < fl_round (T * 12)" using pow2_pos [of "- 1074"] by simp
  then show ?thesis by (simp add: to_float_def Let_def)
qed

lemma calculate_emi_returns:
  assumes "0 < T" and "to_float T = Fin T"
    and "py_div annual_rate (Fin 12) = Inr m" and "py_div m (Fin 100) = Inr r"
    and "py_eq r (Fin 0)
       \<or> py_pow libm (py_add (Fin 1) r) (py_mul (Fin T) (Fin 12)) = Inr p
         \<and> py_sub p (Fin 1) \<noteq> Fin 0"
  shows "\<exists>t. calculate_emi libm princ annual_rate (Fin T) = Inr t"
proof -
  have "if py_eq r (Fin 0) then py_mul (Fin T) (Fin 12) \<noteq> Fin 0
        else \<exists>p. py_pow libm (py_add (Fin 1) r) (py_mul (Fin T) (Fin 12)) = Inr p
                 \<and> py_sub p (Fin 1) \<noteq> Fin 0"
    using assms(5) tenure_months_nonzero [OF assms(1,2)] by auto
  with assms(3,4) show ?thesis
    unfolding calculate_emi_returns_iff [of libm princ annual_rate "Fin T"] by blast
qed

text \<open>
  Claim C1, amended. For every principal, a finite annual rate that is not negative
  and a tenure in years that is a positive float: when the monthly rate is zero, or when the power
  \<open>(1 + monthly_rate) ** tenure_months\<close> is returned as a float and the denominator,
  the power minus one, is not zero, \<open>calculate_emi\<close> returns a result. And whenever it
  returns, for any arguments, and the three amounts are finite,
  the tenure in months and the principal are finite,
  \<open>total_payment\<close> differs from \<open>emi_amount * tenure_months\<close> by at most
  \<open>0.005 * (tenure_months + 1)\<close> plus the binary rounding term
  \<open>2^-50 * (emi_amount * tenure_months + tenure_months + 1)\<close>, and
  \<open>total_interest\<close> differs from \<open>total_payment - principal\<close> by at most \<open>0.01\<close> plus
  \<open>2^-50 * (total_payment + principal + 1)\<close> (absolute values throughout).
\<close>

theorem emi_totals_within_rounding:
  "(annual_rate = Fin R \<and> 0 \<le> R \<and> tenure_years = Fin T \<and> 0 < T \<and> to_float T = Fin T
      \<and> py_div annual_rate (Fin 12) = Inr m \<and> py_div m (Fin 100) = Inr r
      \<and> (py_eq r (Fin 0)
          \<or> py_pow libm (py_add (Fin 1) r) (py_mul tenure_years (Fin 12)) = Inr p
            \<and> py_sub p (Fin 1) \<noteq> Fin 0)
    \<longrightarrow> (\<exists>t. calculate_emi libm princ annual_rate tenure_years = Inr t))
   \<and> (calculate_emi libm princ annual_rate tenure_years = Inr t
        \<and> emi_amount t = Fin a \<and> total_payment t = Fin tp \<and> total_interest t = Fin ti
      \<longrightarrow> (\<exists>n P. py_mul tenure_years (Fin 12) = Fin n \<and> princ = Fin P
             \<and> \<bar>tp - a * n\<bar> \<le> (\<bar>n\<bar> + 1) / 200 + (\<bar>a\<bar> * \<bar>n\<bar> + \<bar>n\<bar> + 1) / 2 ^ 50
             \<and> \<bar>ti - (tp - P)\<bar> \<le> 1 / 100 + (\<bar>tp\<bar> + \<bar>P\<bar> + 1) / 2 ^ 50))"
  using calculate_emi_returns [of T annual_rate m r libm p princ]
    emi_amounts_bounds [of libm princ annual_rate tenure_years t a tp ti]
  by blast

theorem emi_totals_within_rounding_witness:
  "0 \<le> (19 / 2 :: rat) \<and> 0 < (5 :: rat) \<and> to_float 5 = Fin 5
   \<and> py_pow libm_sample (py_add (Fin 1) (Fin monthly_rate_95)) (py_mul (Fin 5) (Fin 12))
       = Inr (Fin (7228320047861593 / 4503599627370496))
   \<and> py_sub (Fin (7228320047861593 / 4503599627370496)) (Fin 1)
       = Fin (2724720420491097 / 4503599627370496)
   \<and> (\<exists>t. calculate_emi libm_sample (Fin 1500000) (float_lit (19 / 2)) (Fin 5) = Inr t)
   \<and> calculate_emi libm_sample (Fin 1500000) (float_lit (19 / 2)) (Fin 5) =
     Inr \<lparr>emi_amount = Fin (4329710489048187 / 137438953472),
          total_payment = Fin (4059103841180713 / 2147483648),
          total_interest = Fin (837878369180713 / 2147483648)\<rparr>
   \<and> \<bar>4059103841180713 / 2147483648 - 4329710489048187 / 137438953472 * 60 :: rat\<bar>
       \<le> (60 + 1) / 200 + (4329710489048187 / 137438953472 * 60 + 60 + 1) / 2 ^ 50
   \<and> \<bar>837878369180713 / 2147483648 - (4059103841180713 / 2147483648 - 1500000) :: rat\<bar>
       \<le> 1 / 100 + (4059103841180713 / 2147483648 + 1500000 + 1) / 2 ^ 50"
proof -
  let ?t = "\<lparr>emi_amount = Fin (4329710489048187 / 137438953472),
          total_payment = Fin (4059103841180713 / 2147483648),
          total_interest = Fin (837878369180713 / 2147483648)\<rparr>"
  let ?p = "Fin (7228320047861593 / 4503599627370496)"
  note inst = emi_totals_within_rounding [of "float_lit (19 / 2)" "19 / 2" "Fin 5" 5
      "Fin (7130699410003285 / 9007199254740992)" "Fin monthly_rate_95" libm_sample ?p
      "Fin 1500000" ?t
      "4329710489048187 / 137438953472" "4059103841180713 / 2147483648"
      "837878369180713 / 2147483648"]
  have f5: "to_float 5 = Fin 5" by (simp add: float_eval)
  have pw: "py_pow libm_sample (py_add (Fin 1) (Fin monthly_rate_95)) (py_mul (Fin 5) (Fin 12))
      = Inr ?p"
    by (simp only: rate_95_steps sample_pow)
  have dn: "py_sub ?p (Fin 1) \<noteq> Fin 0"
    by (simp only: sample_denominator) simp
  have d1: "py_div (float_lit (19 / 2)) (Fin 12)
      = Inr (Fin (7130699410003285 / 9007199254740992))"
    by (simp only: rate_95_steps)
  have ex: "\<exists>t. calculate_emi libm_sample (Fin 1500000) (float_lit (19 / 2)) (Fin 5) = Inr t"
  proof -
    have "0 \<le> (19 / 2 :: rat)" and "0 < (5 :: rat)" by simp_all
    with inst rate_95_steps(1) rate_95_steps(3) f5 pw dn d1 show ?thesis by blast
  qed
  have h: "calculate_emi libm_sample (Fin 1500000) (float_lit (19 / 2)) (Fin 5) = Inr ?t
      \<and> emi_amount ?t = Fin (4329710489048187 / 137438953472)
      \<and> total_payment ?t = Fin (4059103841180713 / 2147483648)
      \<and> total_interest ?t = Fin (837878369180713 / 2147483648)"
    by (simp add: calculate_emi_sample_1500000)
  from inst h
  obtain n P where n: "py_mul (Fin 5) (Fin 12) = Fin n" and P: "Fin 1500000 = Fin P"
    and b: "\<bar>4059103841180713 / 2147483648 - 4329710489048187 / 137438953472 * n\<bar>
        \<le> (\<bar>n\<bar> + 1) / 200 + (\<bar>4329710489048187 / 137438953472\<bar> * \<bar>n\<bar> + \<bar>n\<bar> + 1) / 2 ^ 50"
      "\<bar>837878369180713 / 2147483648 - (4059103841180713 / 2147483648 - P)\<bar>
        \<le> 1 / 100 + (\<bar>4059103841180713 / 2147483648\<bar> + \<bar>P\<bar> + 1) / 2 ^ 50"
    by blast
  from n have n60: "n = 60" by (simp only: rate_95_steps(5) pyfloat.inject)
  from P have P15: "P = 1500000" by simp
  have num: "\<bar>4059103841180713 / 2147483648 - 4329710489048187 / 137438953472 * 60 :: rat\<bar>
       \<le> (60 + 1) / 200 + (4329710489048187 / 137438953472 * 60 + 60 + 1) / 2 ^ 50
   \<and> \<bar>837878369180713 / 2147483648 - (4059103841180713 / 2147483648 - 1500000) :: rat\<bar>
       \<le> 1 / 100 + (4059103841180713 / 2147483648 + 1500000 + 1) / 2 ^ 50"
    using b unfolding n60 P15 by simp
  show ?thesis
    using ex num by (simp only: f5 pw sample_denominator calculate_emi_sample_1500000) simp
qed

end
